theory Spec2Isabelle
  imports Main "HOL-Library.Sublist"
begin

chapter \<open>deslop: orchestration, verification and the markdown codec\<close>

text \<open>
  A shallow embedding of the parts of the deslop command-line tool that its specification
  makes promises about: the selection and proceed handlers of the application controller,
  the verification executor, the verification discoverer, the verification pass with its
  bounded fix-retry loop, and the markdown parsers of the run manager.

  Conventions. A JavaScript string is a \<^typ>\<open>string\<close>: a list of code units, here
  restricted to the 8-bit range that \<^typ>\<open>char\<close> has. An optional field
  (\<^verbatim>\<open>line?: number\<close>) is an \<^typ>\<open>'a option\<close>, \<^verbatim>\<open>undefined\<close> being \<^term>\<open>None\<close>.
  Record fields carry the name of the source field behind a prefix that names the
  interface (\<open>item_\<close>, \<open>task_\<close>, \<open>cmd_\<close>, \<open>res_\<close>, \<open>vs_\<close>), because several
  interfaces of the source share field names. The React state setters are explicit state
  passing; the calls that leave the process (spawning a command, submitting a prompt,
  appending to the activity log) are recorded, in order, in a trace.

  Where the code is in the source tree. The application controller (\<^verbatim>\<open>handleToggle\<close>,
  \<^verbatim>\<open>handleSelectAll\<close>, \<^verbatim>\<open>handleProceed\<close>, \<^verbatim>\<open>runVerification\<close>, \<^verbatim>\<open>executeVerification\<close>,
  \<^verbatim>\<open>handleVerificationRetry\<close>) is in \<^verbatim>\<open>src/config.ts\<close>; the key handler of \<^verbatim>\<open>SlopList\<close>
  in \<^verbatim>\<open>unnamed/part_003\<close>; \<^verbatim>\<open>runVerificationCommand\<close>, \<^verbatim>\<open>discoverVerificationCommands\<close>,
  \<^verbatim>\<open>createCommand\<close> and \<^verbatim>\<open>extractMakeTargets\<close> in \<^verbatim>\<open>src/verification/runner.ts\<close>; the
  parsers and \<^verbatim>\<open>extractField\<close> in \<^verbatim>\<open>src/run-manager.ts\<close>; the types,
  \<^verbatim>\<open>HINT_ONLY_CATEGORIES\<close>, the prompts and \<^verbatim>\<open>generateTasksForSlopItem\<close> in
  \<^verbatim>\<open>src/types.ts\<close>.
\<close>

section \<open>Data model\<close>

datatype AppPhase = Scanning | Results | Executing | Verifying | Reviewing | Complete

text \<open>
  \<^verbatim>\<open>SlopCategory\<close> and the severity are string-literal unions in the source, but the
  parser casts whatever it read to them, so at run time both are arbitrary strings.
\<close>

type_synonym SlopCategory = string

text \<open>
  The numbers a \<^verbatim>\<open>line\<close> can hold: what \<^verbatim>\<open>parseInt\<close> returns besides \<^verbatim>\<open>NaN\<close>, a double
  with an integer value or an infinity.
\<close>

datatype JsNumber = Finite int | PosInfinity | NegInfinity

record SlopItem =
  item_id :: string
  item_title :: string
  item_description :: string
  item_file :: string
  item_line :: "JsNumber option"
  item_severity :: string
  item_category :: SlopCategory
  item_selected :: bool

definition HINT_ONLY_CATEGORIES :: "SlopCategory list" where
  "HINT_ONLY_CATEGORIES = [''ui-slop'']"

datatype TaskStatus = TaskPending | TaskInProgress | TaskCompleted | TaskFailed

record Task =
  task_id :: string
  task_title :: string
  task_description :: string
  task_status :: TaskStatus
  task_file :: "string option"
  task_slopItemId :: string

record ReviewSuggestion =
  sug_id :: string
  sug_title :: string
  sug_description :: string
  sug_file :: string
  sug_line :: "JsNumber option"
  sug_severity :: string

datatype CommandType = Build | Test | Lint | Typecheck

datatype CommandStatus = CmdPending | CmdRunning | CmdPassed | CmdFailed | CmdSkipped

record VerificationCommand =
  cmd_id :: string
  cmd_name :: string
  cmd_command :: string
  cmd_type :: CommandType
  cmd_optional :: bool
  cmd_status :: CommandStatus
  cmd_output :: "string option"
  cmd_exitCode :: "int option"

record VerificationResult =
  res_command :: VerificationCommand
  res_success :: bool
  res_output :: string
  res_exitCode :: int
  res_duration :: int

datatype VerificationStatus = VsDiscovering | VsRunning | VsFixing | VsPassed | VsFailed

record VerificationState =
  vs_commands :: "VerificationCommand list"
  vs_currentCommandIndex :: nat
  vs_attempt :: int
  vs_maxAttempts :: int
  vs_status :: VerificationStatus
  vs_lastError :: "string option"

section \<open>Selection and the proceed transition\<close>

text \<open>\<^verbatim>\<open>generateTasksForSlopItem\<close>: one task per finding, in a singleton array.\<close>

definition generateTasksForSlopItem :: "SlopItem \<Rightarrow> Task list" where
  "generateTasksForSlopItem item =
     [\<lparr>task_id = ''task-'' @ item_id item,
       task_title = ''Fix: '' @ item_title item,
       task_description = item_description item,
       task_status = TaskPending,
       task_file = Some (item_file item),
       task_slopItemId = item_id item\<rparr>]"

text \<open>The handlers of \<^verbatim>\<open>App\<close>, as functions on the \<^verbatim>\<open>slopItems\<close> state.\<close>

definition handleToggle :: "string \<Rightarrow> SlopItem list \<Rightarrow> SlopItem list" where
  "handleToggle ident prev =
     map (\<lambda>item. if item_id item = ident
                  then item\<lparr>item_selected := \<not> item_selected item\<rparr> else item) prev"

definition handleSelectAll :: "SlopItem list \<Rightarrow> SlopItem list" where
  "handleSelectAll prev = map (\<lambda>item. item\<lparr>item_selected := True\<rparr>) prev"

definition handleDeselectAll :: "SlopItem list \<Rightarrow> SlopItem list" where
  "handleDeselectAll prev = map (\<lambda>item. item\<lparr>item_selected := False\<rparr>) prev"

text \<open>
  \<^verbatim>\<open>items[cursor]\<close>: \<^verbatim>\<open>undefined\<close> outside the array. The cursor of \<^verbatim>\<open>SlopList\<close> can
  become \<open>-1\<close> on an empty list, so it is an integer.
\<close>

definition itemAt :: "SlopItem list \<Rightarrow> int \<Rightarrow> SlopItem option" where
  "itemAt items cursor =
     (if 0 \<le> cursor \<and> cursor < int (length items) then Some (items ! nat cursor) else None)"

text \<open>
  The key handler of \<^verbatim>\<open>SlopList\<close> for the keys that change the selection: the space bar
  toggles the item under the cursor unless its category is hint-only; \<^verbatim>\<open>a\<close> and \<^verbatim>\<open>n\<close>
  call the select-all and deselect-all handlers with no test.
\<close>

datatype SelectionKey = KeySpace | KeyA | KeyN

definition slopListInput :: "SelectionKey \<Rightarrow> int \<Rightarrow> SlopItem list \<Rightarrow> SlopItem list" where
  "slopListInput k cursor items =
     (case k of
        KeySpace \<Rightarrow>
          (case itemAt items cursor of
             Some item \<Rightarrow>
               if item_category item \<notin> set HINT_ONLY_CATEGORIES
               then handleToggle (item_id item) items else items
           | None \<Rightarrow> items)
      | KeyA \<Rightarrow> handleSelectAll items
      | KeyN \<Rightarrow> handleDeselectAll items)"

text \<open>
  \<^verbatim>\<open>handleProceed\<close>: \<open>proceedSelectedItems\<close> is its local \<^verbatim>\<open>selectedItems\<close> and
  \<open>handleProceed\<close> its \<^verbatim>\<open>generatedTasks\<close>, the list it stores with \<^verbatim>\<open>setTasks\<close>, writes
  with \<^verbatim>\<open>writeTasks\<close> and hands to \<^verbatim>\<open>executeTasks\<close>.
\<close>

definition proceedSelectedItems :: "SlopItem list \<Rightarrow> SlopItem list" where
  "proceedSelectedItems slopItems =
     filter (\<lambda>item. item_selected item \<and> item_category item \<notin> set HINT_ONLY_CATEGORIES)
       slopItems"

definition handleProceed :: "SlopItem list \<Rightarrow> Task list" where
  "handleProceed slopItems = concat (map generateTasksForSlopItem (proceedSelectedItems slopItems))"

section \<open>Verification executor\<close>

text \<open>
  \<^verbatim>\<open>output.slice(-maxLength)\<close>: the last \<open>maxLength\<close> code units, and the whole string
  when \<open>maxLength\<close> is \<open>0\<close> (\<open>-0\<close> is \<open>0\<close>).
\<close>

definition sliceFromEnd :: "string \<Rightarrow> nat \<Rightarrow> string" where
  "sliceFromEnd s n = (if n = 0 then s else drop (length s - n) s)"

definition truncateOutput :: "string \<Rightarrow> nat \<Rightarrow> string" where
  "truncateOutput output maxLength =
     (if length output \<le> maxLength then output
      else ''...[truncated]...\<newline>'' @ sliceFromEnd output maxLength)"

text \<open>
  \<^verbatim>\<open>spawn\<close> of \<^verbatim>\<open>child_process\<close> is the environment's. Called with the command line and
  the options, it either throws before it returns (Node validates the arguments first, and
  throws for an empty command line and for a timeout that is not an integer from 0 on),
  or it returns a child process. What the child process does is the first of the two
  events the promise listens for (\<^verbatim>\<open>close\<close> with an exit code or \<^verbatim>\<open>null\<close>, \<^verbatim>\<open>error\<close>
  with a message), the output captured from stdout and stderr until then, and the time
  elapsed. A kill by the timeout is a \<^verbatim>\<open>close\<close> with \<^verbatim>\<open>null\<close>.
\<close>

datatype ProcEvent = Close "int option" | Error string

record ProcRun =
  proc_event :: ProcEvent
  proc_captured :: string
  proc_elapsed :: int

record SpawnOptions =
  opt_cwd :: string
  opt_shell :: bool
  opt_timeout :: int

datatype SpawnOutcome = Throws string | Spawned ProcRun

type_synonym Spawn = "string \<Rightarrow> SpawnOptions \<Rightarrow> SpawnOutcome"

text \<open>
  \<^verbatim>\<open>runVerificationCommand\<close>. The promise is built with \<^verbatim>\<open>new Promise((resolve) => ...)\<close>
  and \<^verbatim>\<open>spawn\<close> is called inside the executor with no \<^verbatim>\<open>try\<close> around it: an exception of
  \<^verbatim>\<open>spawn\<close> rejects the promise (\<^term>\<open>Inl\<close> with the message); both events resolve it
  (\<^term>\<open>Inr\<close>).
\<close>

definition runVerificationCommand ::
  "Spawn \<Rightarrow> VerificationCommand \<Rightarrow> string \<Rightarrow> int \<Rightarrow> string + VerificationResult" where
  "runVerificationCommand spawn command directory timeout =
     (case spawn (cmd_command command)
             \<lparr>opt_cwd = directory, opt_shell = True, opt_timeout = timeout * 1000\<rparr> of
        Throws message \<Rightarrow> Inl message
      | Spawned run \<Rightarrow>
          (case proc_event run of
             Close code \<Rightarrow>
               Inr \<lparr>res_command = command,
                    res_success = (code = Some 0),
                    res_output = truncateOutput (proc_captured run) 10000,
                    res_exitCode = (case code of Some c \<Rightarrow> c | None \<Rightarrow> 1),
                    res_duration = proc_elapsed run\<rparr>
           | Error message \<Rightarrow>
               Inr \<lparr>res_command = command,
                    res_success = False,
                    res_output = ''Failed to run command: '' @ message @ ''\<newline>'' @ proc_captured run,
                    res_exitCode = 1,
                    res_duration = proc_elapsed run\<rparr>))"

section \<open>The verification pass and its fix-retry loop\<close>

text \<open>
  The effects of the verification phase that leave the process, in the order the code
  performs them: the start of a child process for a command, the submission of a
  verification-fix prompt (the prompt is
  \<^verbatim>\<open>generateVerificationFixPrompt(failedCommand, failedOutput, attempt)\<close>, kept as its three
  arguments), the call of \<^verbatim>\<open>runReview\<close>, and the lines appended to the activity log (one
  constructor per \<^verbatim>\<open>logActivity\<close> call site, with the values the message interpolates).
  The \<^verbatim>\<open>agentOutput\<close> display buffer is not modelled, and the file system is taken to
  accept every line of the log.
\<close>

datatype Effect =
    RunCommand VerificationCommand
  | SubmitFix VerificationCommand string int
  | RunReview
  | LogVerificationFailed string int
  | LogVerificationPassed string
  | LogVerificationSkipped string
  | LogAllPassed
  | LogAttemptingFix string
  | LogFixAttemptFailed string
  | LogFailedAfter int

record App =
  app_phase :: AppPhase
  app_verificationState :: "VerificationState option"
  app_trace :: "Effect list"

definition effect :: "Effect \<Rightarrow> App \<Rightarrow> App" where
  "effect e s = s\<lparr>app_trace := app_trace s @ [e]\<rparr>"

text \<open>\<^verbatim>\<open>setVerificationState(prev => prev ? f(prev) : null)\<close>.\<close>

definition setVerificationState :: "(VerificationState \<Rightarrow> VerificationState) \<Rightarrow> App \<Rightarrow> App" where
  "setVerificationState f s =
     s\<lparr>app_verificationState := map_option f (app_verificationState s)\<rparr>"

text \<open>\<^verbatim>\<open>xs.map((c, idx) => f(c, idx))\<close>.\<close>

definition mapIndexed :: "('a \<Rightarrow> nat \<Rightarrow> 'b) \<Rightarrow> 'a list \<Rightarrow> 'b list" where
  "mapIndexed f xs = map (\<lambda>(idx, c). f c idx) (enumerate 0 xs)"

text \<open>
  \<^verbatim>\<open>runReview\<close> is called and not awaited: what executeVerification performs of it is
  the call and its synchronous start, the move to the reviewing phase.
\<close>

definition runReview :: "App \<Rightarrow> App" where
  "runReview s = (effect RunReview s)\<lparr>app_phase := Reviewing\<rparr>"

text \<open>The three locals of \<^verbatim>\<open>executeVerification\<close> that the loop assigns.\<close>

record PassLocals =
  allPassed :: bool
  failedCommand :: "VerificationCommand option"
  failedOutput :: string

text \<open>
  The \<^verbatim>\<open>for\<close> loop of \<^verbatim>\<open>executeVerification\<close>, from index \<open>i\<close> on, over the commands
  from \<open>commands[i]\<close> on. \<open>procs i\<close> is the \<^verbatim>\<open>spawn\<close> that the call for \<open>commands[i]\<close>
  meets. The locals are assigned only right before the \<^verbatim>\<open>break\<close>, so the loop returns
  them: their initial values when it runs to the end. The \<^verbatim>\<open>await\<close> is not inside a
  \<^verbatim>\<open>try\<close>: when the promise rejects, the loop ends there with the exception (\<^term>\<open>Inl\<close>),
  the command still marked as running.
\<close>

fun verificationPass ::
  "string \<Rightarrow> int \<Rightarrow> (nat \<Rightarrow> Spawn) \<Rightarrow> nat \<Rightarrow> VerificationCommand list \<Rightarrow> App
     \<Rightarrow> App \<times> (string + PassLocals)" where
  "verificationPass directory timeout procs i [] s =
     (s, Inr \<lparr>allPassed = True, failedCommand = None, failedOutput = []\<rparr>)"
| "verificationPass directory timeout procs i (cmd # rest) s =
     (let s1 = setVerificationState (\<lambda>prev. prev
                 \<lparr>vs_currentCommandIndex := i,
                  vs_commands := mapIndexed (\<lambda>c idx.
                     if idx = i then c\<lparr>cmd_status := CmdRunning\<rparr> else c) (vs_commands prev)\<rparr>) s
      in case runVerificationCommand (procs i) cmd directory timeout of
           Inl message \<Rightarrow> (s1, Inl message)
         | Inr result \<Rightarrow>
             (let s2 = effect (RunCommand cmd) s1
              in if \<not> res_success result \<and> \<not> cmd_optional cmd then
                   (effect (LogVerificationFailed (cmd_command cmd) (res_exitCode result))
                      (setVerificationState (\<lambda>prev. prev
                         \<lparr>vs_commands := mapIndexed (\<lambda>c idx.
                             if idx = i
                             then c\<lparr>cmd_status := CmdFailed,
                                    cmd_exitCode := Some (res_exitCode result),
                                    cmd_output := Some (res_output result)\<rparr>
                             else c) (vs_commands prev)\<rparr>) s2),
                    Inr \<lparr>allPassed = False,
                         failedCommand = Some (cmd\<lparr>cmd_exitCode := Some (res_exitCode result),
                                                   cmd_output := Some (res_output result)\<rparr>),
                         failedOutput = res_output result\<rparr>)
                 else
                   (let newStatus = (if res_success result then CmdPassed else CmdSkipped);
                        s3 = setVerificationState (\<lambda>prev. prev
                               \<lparr>vs_commands := mapIndexed (\<lambda>c idx.
                                   if idx = i then c\<lparr>cmd_status := newStatus\<rparr> else c)
                                   (vs_commands prev)\<rparr>) s2;
                        s4 = (if res_success result
                              then effect (LogVerificationPassed (cmd_command cmd)) s3
                              else effect (LogVerificationSkipped (cmd_command cmd)) s3)
                    in verificationPass directory timeout procs (i + 1) rest s4)))"

text \<open>
  The environment of the whole loop: the \<^verbatim>\<open>spawn\<close> that attempt \<open>a\<close> meets for the command
  at index \<open>i\<close>, and whether submitting the fix prompt of attempt \<open>a\<close> and consuming its
  stream completes (\<^term>\<open>None\<close>) or throws (the error's message). Each pair of attempt and
  index is spawned at most once in one run of the loop, so nothing is lost by indexing
  the environment this way.
\<close>

record World =
  world_proc :: "int \<Rightarrow> nat \<Rightarrow> Spawn"
  world_fix :: "int \<Rightarrow> string option"

text \<open>
  \<^verbatim>\<open>executeVerification(commands, attempt)\<close>, with \<open>directory\<close> for the property of the
  component and \<open>timeout\<close> and \<open>maxRetries\<close> for \<^verbatim>\<open>config.verification.timeout\<close> and
  \<^verbatim>\<open>config.verification.maxRetries\<close>. The result is the state and what the promise of the
  \<^verbatim>\<open>async\<close> function rejects with, if it does. The loop is outside the \<^verbatim>\<open>try\<close>, so an
  exception of the pass rejects the promise. The recursive call is awaited inside the
  \<^verbatim>\<open>try\<close>, so the \<^verbatim>\<open>catch\<close> block (\<open>catchFixError\<close>, with the message of the error)
  takes both an exception of the submission and a rejection of the recursive call.
\<close>

definition catchFixError :: "string \<Rightarrow> App \<Rightarrow> App" where
  "catchFixError message s =
     setVerificationState (\<lambda>prev. prev\<lparr>vs_status := VsFailed\<rparr>)
       (effect (LogFixAttemptFailed message) s)"

function executeVerification ::
  "World \<Rightarrow> string \<Rightarrow> int \<Rightarrow> int \<Rightarrow> VerificationCommand list \<Rightarrow> int \<Rightarrow> App
     \<Rightarrow> App \<times> string option" where
  "executeVerification world directory timeout maxRetries commands attempt s =
     (let pass = verificationPass directory timeout (world_proc world attempt) 0 commands s;
          s1 = fst pass
      in case snd pass of
           Inl message \<Rightarrow> (s1, Some message)
         | Inr locals \<Rightarrow>
             if allPassed locals then
               (runReview (setVerificationState (\<lambda>prev. prev\<lparr>vs_status := VsPassed\<rparr>)
                  (effect LogAllPassed s1)), None)
             else if attempt < maxRetries \<and> failedCommand locals \<noteq> None then
               (let failed = the (failedCommand locals);
                    s2 = setVerificationState (\<lambda>prev. prev\<lparr>vs_status := VsFixing\<rparr>) s1;
                    s3 = effect (LogAttemptingFix (cmd_command failed)) s2;
                    s4 = effect (SubmitFix failed (failedOutput locals) attempt) s3
                in case world_fix world attempt of
                     Some message \<Rightarrow> (catchFixError message s4, None)
                   | None \<Rightarrow>
                       (let freshCommands = map (\<lambda>c. c\<lparr>cmd_status := CmdPending\<rparr>) commands;
                            s5 = setVerificationState (\<lambda>prev. prev
                                   \<lparr>vs_commands := freshCommands,
                                    vs_attempt := attempt + 1,
                                    vs_status := VsRunning\<rparr>) s4;
                            retry = executeVerification world directory timeout maxRetries
                                      freshCommands (attempt + 1) s5
                        in case snd retry of
                             None \<Rightarrow> (fst retry, None)
                           | Some message \<Rightarrow> (catchFixError message (fst retry), None)))
             else
               (setVerificationState (\<lambda>prev. prev\<lparr>vs_status := VsFailed\<rparr>)
                  (effect (LogFailedAfter attempt) s1), None))"
  by pat_completeness auto
termination
  by (relation "measure (\<lambda>(world, directory, timeout, maxRetries, commands, attempt, s).
                  nat (maxRetries - attempt))") auto

text \<open>
  \<^verbatim>\<open>runVerification\<close> after discovery found the commands \<open>discovered\<close> (with none it
  goes to the review at once). It awaits \<^verbatim>\<open>executeVerification\<close> with no \<^verbatim>\<open>try\<close>, so it
  rejects with what that rejects with.
\<close>

definition runVerification ::
  "World \<Rightarrow> string \<Rightarrow> int \<Rightarrow> int \<Rightarrow> VerificationCommand list \<Rightarrow> App \<Rightarrow> App \<times> string option" where
  "runVerification world directory timeout maxRetries discovered s =
     (let s0 = s\<lparr>app_phase := Verifying\<rparr>
      in if length discovered = 0 then (runReview s0, None)
         else executeVerification world directory timeout maxRetries discovered 1
                (s0\<lparr>app_verificationState := Some
                      \<lparr>vs_commands = discovered,
                       vs_currentCommandIndex = 0,
                       vs_attempt = 1,
                       vs_maxAttempts = maxRetries,
                       vs_status = VsRunning,
                       vs_lastError = None\<rparr>\<rparr>))"

text \<open>
  \<^verbatim>\<open>handleVerificationRetry\<close>: the user's retry after a failed verification. It does not
  await \<^verbatim>\<open>executeVerification\<close>: the second component is what the promise it leaves
  behind rejects with.
\<close>

definition handleVerificationRetry ::
  "World \<Rightarrow> string \<Rightarrow> int \<Rightarrow> int \<Rightarrow> App \<Rightarrow> App \<times> string option" where
  "handleVerificationRetry world directory timeout maxRetries s =
     (case app_verificationState s of
        None \<Rightarrow> (s, None)
      | Some verificationState \<Rightarrow>
          (let freshCommands = map (\<lambda>c. c\<lparr>cmd_status := CmdPending\<rparr>) (vs_commands verificationState)
           in executeVerification world directory timeout maxRetries freshCommands 1
                (s\<lparr>app_verificationState := Some (verificationState
                      \<lparr>vs_commands := freshCommands, vs_attempt := 1, vs_status := VsRunning\<rparr>)\<rparr>)))"

section \<open>Verification discoverer\<close>

text \<open>Character classes of the regular expressions, on code units.\<close>

definition isDigit :: "char \<Rightarrow> bool" where
  "isDigit c = (48 \<le> (of_char c :: nat) \<and> (of_char c :: nat) \<le> 57)"

definition isUpper :: "char \<Rightarrow> bool" where
  "isUpper c = (65 \<le> (of_char c :: nat) \<and> (of_char c :: nat) \<le> 90)"

definition isLower :: "char \<Rightarrow> bool" where
  "isLower c = (97 \<le> (of_char c :: nat) \<and> (of_char c :: nat) \<le> 122)"

text \<open>\<^verbatim>\<open>\w\<close>, that is \<^verbatim>\<open>[A-Za-z0-9_]\<close>.\<close>

definition isWordChar :: "char \<Rightarrow> bool" where
  "isWordChar c = (isUpper c \<or> isLower c \<or> isDigit c \<or> c = CHR ''_'')"

text \<open>
  The line terminators (what \<^verbatim>\<open>.\<close> does not match and what \<^verbatim>\<open>^\<close> follows under the
  \<^verbatim>\<open>m\<close> flag): line feed and carriage return; U+2028 and U+2029 are beyond the 8-bit
  range of this model.
\<close>

definition isLineTerminator :: "char \<Rightarrow> bool" where
  "isLineTerminator c = (c = CHR 0x0A \<or> c = CHR 0x0D)"

text \<open>\<^verbatim>\<open>s.includes(p)\<close>.\<close>

fun stringIncludes :: "string \<Rightarrow> string \<Rightarrow> bool" where
  "stringIncludes [] p = (p = [])"
| "stringIncludes (c # cs) p = (prefix p (c # cs) \<or> stringIncludes cs p)"

text \<open>\<^verbatim>\<open>createCommand\<close>; the name is \<^verbatim>\<open>id.replace(/-/g, ' ')\<close>.\<close>

definition createCommand :: "string \<Rightarrow> string \<Rightarrow> CommandType \<Rightarrow> bool \<Rightarrow> VerificationCommand" where
  "createCommand ident command type optional =
     \<lparr>cmd_id = ident,
      cmd_name = map (\<lambda>c. if c = CHR ''-'' then CHR '' '' else c) ident,
      cmd_command = command,
      cmd_type = type,
      cmd_optional = optional,
      cmd_status = CmdPending,
      cmd_output = None,
      cmd_exitCode = None\<rparr>"

text \<open>
  \<^verbatim>\<open>extractMakeTargets\<close>: the matches of \<^verbatim>\<open>/^([a-zA-Z_][a-zA-Z0-9_-]*):/gm\<close>, in order.
  \<open>matchTarget\<close> is the expression anchored at one position: the classes of the name and
  the colon are disjoint, so the greedy star has one way to match. A match holds no line
  terminator, so no position inside it starts a line, and scanning every position that
  starts a line finds what the \<^verbatim>\<open>exec\<close> loop finds.
\<close>

definition isTargetStart :: "char \<Rightarrow> bool" where
  "isTargetStart c = (isUpper c \<or> isLower c \<or> c = CHR ''_'')"

definition isTargetChar :: "char \<Rightarrow> bool" where
  "isTargetChar c = (isUpper c \<or> isLower c \<or> isDigit c \<or> c = CHR ''_'' \<or> c = CHR ''-'')"

definition matchTarget :: "string \<Rightarrow> string option" where
  "matchTarget s =
     (case s of
        [] \<Rightarrow> None
      | c # cs \<Rightarrow>
          if isTargetStart c then
            (case dropWhile isTargetChar cs of
               [] \<Rightarrow> None
             | d # _ \<Rightarrow> if d = CHR '':'' then Some (c # takeWhile isTargetChar cs) else None)
          else None)"

fun targetsFrom :: "bool \<Rightarrow> string \<Rightarrow> string list" where
  "targetsFrom atLineStart [] = []"
| "targetsFrom atLineStart (c # cs) =
     (if atLineStart then (case matchTarget (c # cs) of Some t \<Rightarrow> [t] | None \<Rightarrow> []) else [])
     @ targetsFrom (isLineTerminator c) cs"

definition extractMakeTargets :: "string \<Rightarrow> string list" where
  "extractMakeTargets content = targetsFrom True content"

text \<open>
  What the discoverer sees of the project directory. A manifest the code only tests for
  existence is a \<^typ>\<open>bool\<close>. One it reads is \<open>Missing\<close> (\<^verbatim>\<open>existsSync\<close> is false),
  \<open>Unreadable\<close> (reading or parsing it throws inside the \<^verbatim>\<open>try\<close>) or its \<open>Contents\<close>:
  the text, and for \<^verbatim>\<open>package.json\<close> the truthiness of \<^verbatim>\<open>scripts[name]\<close> for
  \<^verbatim>\<open>scripts = pkg.scripts || {}\<close>.
\<close>

datatype 'a FileRead = Missing | Unreadable | Contents 'a

record Project =
  packageJson :: "(string \<Rightarrow> bool) FileRead"
  cargoToml :: bool
  pyprojectToml :: "string FileRead"
  goMod :: bool
  makefile :: "string FileRead"

record DiscoveryResult =
  dr_commands :: "VerificationCommand list"
  dr_sources :: "string list"

text \<open>
  \<^verbatim>\<open>discoverVerificationCommands\<close> is five blocks in sequence, each pushing to
  \<^verbatim>\<open>commands\<close> and \<^verbatim>\<open>sources\<close>; each block is a function on the two arrays. Every
  \<^verbatim>\<open>try\<close> can throw only before its first push, so a throw leaves the arrays as they
  were.
\<close>

definition checkPackageJson :: "Project \<Rightarrow> DiscoveryResult \<Rightarrow> DiscoveryResult" where
  "checkPackageJson p r =
     (case packageJson p of
        Contents scripts \<Rightarrow>
          (let c1 = (if scripts ''build''
                     then dr_commands r @ [createCommand ''build'' ''npm run build'' Build False]
                     else dr_commands r);
               c2 = (if scripts ''typecheck''
                     then c1 @ [createCommand ''typecheck'' ''npm run typecheck'' Typecheck True]
                     else if scripts ''type-check''
                     then c1 @ [createCommand ''typecheck'' ''npm run type-check'' Typecheck True]
                     else c1);
               c3 = (if scripts ''test''
                     then c2 @ [createCommand ''test'' ''npm run test'' Test False]
                     else c2);
               c4 = (if scripts ''lint''
                     then c3 @ [createCommand ''lint'' ''npm run lint'' Lint True]
                     else c3)
           in \<lparr>dr_commands = c4,
               dr_sources = (if length c4 > 0 then dr_sources r @ [''package.json''] else dr_sources r)\<rparr>)
      | _ \<Rightarrow> r)"

definition checkCargoToml :: "Project \<Rightarrow> DiscoveryResult \<Rightarrow> DiscoveryResult" where
  "checkCargoToml p r =
     (if cargoToml p \<and> length (dr_commands r) = 0 then
        \<lparr>dr_commands = dr_commands r @
           [createCommand ''cargo-build'' ''cargo build'' Build False,
            createCommand ''cargo-test'' ''cargo test'' Test False,
            createCommand ''cargo-clippy'' ''cargo clippy -- -D warnings'' Lint True],
         dr_sources = dr_sources r @ [''Cargo.toml'']\<rparr>
      else r)"

definition checkPyproject :: "Project \<Rightarrow> DiscoveryResult \<Rightarrow> DiscoveryResult" where
  "checkPyproject p r =
     (case pyprojectToml p of
        Contents content \<Rightarrow>
          if length (dr_commands r) = 0 then
            (let c1 = (if stringIncludes content ''[tool.pytest]'' \<or> stringIncludes content ''pytest''
                       then dr_commands r @ [createCommand ''pytest'' ''pytest'' Test False]
                       else dr_commands r);
                 c2 = (if stringIncludes content ''[tool.mypy]'' \<or> stringIncludes content ''mypy''
                       then c1 @ [createCommand ''mypy'' ''mypy .'' Typecheck True]
                       else c1);
                 c3 = (if stringIncludes content ''[tool.ruff]'' \<or> stringIncludes content ''ruff''
                       then c2 @ [createCommand ''ruff'' ''ruff check .'' Lint True]
                       else c2)
             in \<lparr>dr_commands = c3,
                 dr_sources = (if length c3 > 0 then dr_sources r @ [''pyproject.toml''] else dr_sources r)\<rparr>)
          else r
      | _ \<Rightarrow> r)"

definition checkGoMod :: "Project \<Rightarrow> DiscoveryResult \<Rightarrow> DiscoveryResult" where
  "checkGoMod p r =
     (if goMod p \<and> length (dr_commands r) = 0 then
        \<lparr>dr_commands = dr_commands r @
           [createCommand ''go-build'' ''go build ./...'' Build False,
            createCommand ''go-test'' ''go test ./...'' Test False,
            createCommand ''go-vet'' ''go vet ./...'' Lint True],
         dr_sources = dr_sources r @ [''go.mod'']\<rparr>
      else r)"

definition checkMakefile :: "Project \<Rightarrow> DiscoveryResult \<Rightarrow> DiscoveryResult" where
  "checkMakefile p r =
     (case makefile p of
        Contents content \<Rightarrow>
          if length (dr_commands r) = 0 then
            (let targets = extractMakeTargets content;
                 c1 = (if ''build'' \<in> set targets
                       then dr_commands r @ [createCommand ''make-build'' ''make build'' Build False]
                       else dr_commands r);
                 c2 = (if ''test'' \<in> set targets
                       then c1 @ [createCommand ''make-test'' ''make test'' Test False]
                       else c1);
                 c3 = (if ''lint'' \<in> set targets
                       then c2 @ [createCommand ''make-lint'' ''make lint'' Lint True]
                       else c2);
                 c4 = (if ''typecheck'' \<in> set targets \<or> ''type-check'' \<in> set targets
                       then c3 @ [createCommand ''make-typecheck''
                                    (''make '' @ (if ''typecheck'' \<in> set targets
                                                  then ''typecheck'' else ''type-check''))
                                    Typecheck True]
                       else c3)
             in \<lparr>dr_commands = c4,
                 dr_sources = (if length c4 > 0 then dr_sources r @ [''Makefile''] else dr_sources r)\<rparr>)
          else r
      | _ \<Rightarrow> r)"

definition discoverVerificationCommands :: "Project \<Rightarrow> DiscoveryResult" where
  "discoverVerificationCommands p =
     checkMakefile p (checkGoMod p (checkPyproject p (checkCargoToml p
       (checkPackageJson p \<lparr>dr_commands = [], dr_sources = []\<rparr>))))"

section \<open>Markdown parsers\<close>

subsection \<open>String primitives\<close>

text \<open>
  White space as \<^verbatim>\<open>\s\<close> and \<^verbatim>\<open>trim\<close> see it, within the 8-bit range: tab, line feed,
  vertical tab, form feed, carriage return, space and the no-break space.
\<close>

definition isSpace :: "char \<Rightarrow> bool" where
  "isSpace c = (c = CHR 0x09 \<or> c = CHR 0x0A \<or> c = CHR 0x0B \<or> c = CHR 0x0C \<or> c = CHR 0x0D
                \<or> c = CHR 0x20 \<or> c = CHR 0xA0)"

definition trim :: "string \<Rightarrow> string" where
  "trim s = rev (dropWhile isSpace (rev (dropWhile isSpace s)))"

text \<open>
  \<^verbatim>\<open>toLowerCase\<close>, within the 8-bit range: the letters A to Z, and the Latin-1 capitals
  (0xC0 to 0xDE without the multiplication sign 0xD7), each 32 below its small letter.
\<close>

definition lowerChar :: "char \<Rightarrow> char" where
  "lowerChar c =
     (let n = (of_char c :: nat)
      in if (65 \<le> n \<and> n \<le> 90) \<or> (192 \<le> n \<and> n \<le> 222 \<and> n \<noteq> 215)
         then char_of (n + 32) else c)"

definition toLowerCase :: "string \<Rightarrow> string" where
  "toLowerCase s = map lowerChar s"

text \<open>
  How the \<^verbatim>\<open>i\<close> flag compares a character of the pattern with one of the input: both are
  mapped to upper case, and a character outside ASCII never becomes an ASCII one. The
  patterns here are ASCII, so only the letters a to z are folded; the result is the code
  unit as a number.
\<close>

definition canonicalize :: "char \<Rightarrow> nat" where
  "canonicalize c = (if isLower c then of_char c - 32 else of_char c)"

text \<open>A literal of a pattern, anchored: the rest of the input after it.\<close>

fun matchLiteral :: "string \<Rightarrow> string \<Rightarrow> string option" where
  "matchLiteral [] s = Some s"
| "matchLiteral (p # ps) [] = None"
| "matchLiteral (p # ps) (c # cs) = (if p = c then matchLiteral ps cs else None)"

fun matchLiteralCI :: "string \<Rightarrow> string \<Rightarrow> string option" where
  "matchLiteralCI [] s = Some s"
| "matchLiteralCI (p # ps) [] = None"
| "matchLiteralCI (p # ps) (c # cs) =
     (if canonicalize p = canonicalize c then matchLiteralCI ps cs else None)"

text \<open>
  The double nearest to an integer \<open>m\<close> from 0 on, ties to the even mantissa, as an
  integer: \<open>m\<close> itself below \<open>2^53\<close>; above, \<open>m\<close> is cut to its 53 leading bits \<open>q\<close> and
  rounded by the bits cut off. A result from \<open>2^1024\<close> on stands for an infinity.
\<close>

function bitLength :: "int \<Rightarrow> nat" where
  "bitLength n = (if n \<le> 0 then 0 else Suc (bitLength (n div 2)))"
  by pat_completeness auto
termination
  by (relation "measure nat") auto

declare bitLength.simps [simp del]

definition roundToDouble :: "int \<Rightarrow> int" where
  "roundToDouble m =
     (if m < 2 ^ 53 then m
      else (let e = bitLength m - 53;
                q = m div 2 ^ e;
                r = m mod 2 ^ e
            in (if 2 ^ (e - 1) < r \<or> (r = 2 ^ (e - 1) \<and> odd q) then q + 1 else q) * 2 ^ e))"

definition toNumber :: "bool \<Rightarrow> int \<Rightarrow> JsNumber" where
  "toNumber negative m =
     (let d = roundToDouble m
      in if 2 ^ 1024 \<le> d then (if negative then NegInfinity else PosInfinity)
         else Finite (if negative then - d else d))"

text \<open>
  \<^verbatim>\<open>parseInt(s, 10)\<close>: leading white space, a sign, then the longest run of digits;
  \<^term>\<open>None\<close> is \<^verbatim>\<open>NaN\<close>. The number is the double nearest to the value of the digits,
  with the sign.
\<close>

definition digitValue :: "char \<Rightarrow> int" where
  "digitValue c = int (of_char c) - 48"

definition digitsValue :: "string \<Rightarrow> int" where
  "digitsValue ds = foldl (\<lambda>acc d. 10 * acc + digitValue d) 0 ds"

definition parseInt :: "string \<Rightarrow> JsNumber option" where
  "parseInt s =
     (let t = dropWhile isSpace s;
          negative = (case t of c # _ \<Rightarrow> c = CHR ''-'' | [] \<Rightarrow> False);
          u = (case t of c # r \<Rightarrow> if c = CHR ''-'' \<or> c = CHR ''+'' then r else t | [] \<Rightarrow> []);
          ds = takeWhile isDigit u
      in if ds = [] then None
         else Some (toNumber negative (digitsValue ds)))"

text \<open>The decimal digits of a number, as a template literal interpolates it.\<close>

fun decimal :: "nat \<Rightarrow> string" where
  "decimal n = (if n < 10 then [char_of (48 + n)] else decimal (n div 10) @ [char_of (48 + n mod 10)])"

text \<open>\<^verbatim>\<open>x || d\<close> for a string or \<^verbatim>\<open>null\<close>: the empty string is falsy too.\<close>

definition orElse :: "string option \<Rightarrow> string \<Rightarrow> string" where
  "orElse x d = (case x of None \<Rightarrow> d | Some v \<Rightarrow> if v = [] then d else v)"

subsection \<open>\<^verbatim>\<open>extractField\<close>\<close>

text \<open>
  \<^verbatim>\<open>text.match(new RegExp(`\\*\\*${field}:\\*\\*\\s*(.+)`, 'i'))\<close>, for a field name
  without regular-expression operators (the four the parsers use are plain words).
  \<open>dotPlus\<close> is \<^verbatim>\<open>(.+)\<close>: the longest run without a line terminator, not empty.
  \<open>spacesThenValue\<close> is \<^verbatim>\<open>\s*(.+)\<close> with its backtracking: the star first takes one more
  white space character, and gives it back when the rest cannot match.
  \<open>searchField\<close> tries the start positions from the left, as \<^verbatim>\<open>match\<close> does.
\<close>

definition dotPlus :: "string \<Rightarrow> string option" where
  "dotPlus s =
     (let v = takeWhile (\<lambda>c. \<not> isLineTerminator c) s in if v = [] then None else Some v)"

fun spacesThenValue :: "string \<Rightarrow> string option" where
  "spacesThenValue [] = None"
| "spacesThenValue (c # cs) =
     (if isSpace c
      then (case spacesThenValue cs of Some v \<Rightarrow> Some v | None \<Rightarrow> dotPlus (c # cs))
      else dotPlus (c # cs))"

definition fieldValueAt :: "string \<Rightarrow> string \<Rightarrow> string option" where
  "fieldValueAt field s =
     (case matchLiteralCI (''**'' @ field @ '':**'') s of
        None \<Rightarrow> None
      | Some r \<Rightarrow> spacesThenValue r)"

fun searchField :: "string \<Rightarrow> string \<Rightarrow> string option" where
  "searchField field [] = fieldValueAt field []"
| "searchField field (c # cs) =
     (case fieldValueAt field (c # cs) of
        Some v \<Rightarrow> Some v
      | None \<Rightarrow> searchField field cs)"

definition extractField :: "string \<Rightarrow> string \<Rightarrow> string option" where
  "extractField text field = map_option trim (searchField field text)"

subsection \<open>The block expression\<close>

text \<open>
  \<^verbatim>\<open>/### \d+\. \[(\w+)\] (.+)\n([\s\S]*?)(?=### \d+\.|## |$)/g\<close>.
  \<open>matchHeading\<close> is the part before the body, anchored: it gives the two groups and the
  input after the line feed. Each greedy class is followed by a character outside the
  class, so there is one way to match. \<open>bodyEnds\<close> is the lookahead (without the \<^verbatim>\<open>m\<close>
  flag \<^verbatim>\<open>$\<close> is the end of the input), and \<open>splitBody\<close> the lazy body: the shortest
  prefix after which the lookahead holds, and the input left.
\<close>

definition matchHeading :: "string \<Rightarrow> (string \<times> string \<times> string) option" where
  "matchHeading s =
     (case matchLiteral ''### '' s of
        None \<Rightarrow> None
      | Some s1 \<Rightarrow>
          if takeWhile isDigit s1 = [] then None
          else
            (case matchLiteral ''. ['' (dropWhile isDigit s1) of
               None \<Rightarrow> None
             | Some s3 \<Rightarrow>
                 if takeWhile isWordChar s3 = [] then None
                 else
                   (case matchLiteral ''] '' (dropWhile isWordChar s3) of
                      None \<Rightarrow> None
                    | Some s5 \<Rightarrow>
                        if takeWhile (\<lambda>c. \<not> isLineTerminator c) s5 = [] then None
                        else
                          (case dropWhile (\<lambda>c. \<not> isLineTerminator c) s5 of
                             [] \<Rightarrow> None
                           | c # s7 \<Rightarrow>
                               if c = CHR 0x0A
                               then Some (takeWhile isWordChar s3,
                                          takeWhile (\<lambda>c. \<not> isLineTerminator c) s5, s7)
                               else None))))"

definition bodyEnds :: "string \<Rightarrow> bool" where
  "bodyEnds s =
     ((case matchLiteral ''### '' s of
         None \<Rightarrow> False
       | Some r \<Rightarrow>
           takeWhile isDigit r \<noteq> []
           \<and> (case dropWhile isDigit r of [] \<Rightarrow> False | c # _ \<Rightarrow> c = CHR ''.''))
      \<or> matchLiteral ''## '' s \<noteq> None
      \<or> s = [])"

fun splitBody :: "string \<Rightarrow> string \<times> string" where
  "splitBody [] = ([], [])"
| "splitBody (c # cs) =
     (if bodyEnds (c # cs) then ([], c # cs)
      else (case splitBody cs of (body, rest) \<Rightarrow> (c # body, rest)))"

lemma matchLiteral_length:
  "matchLiteral p s = Some r \<Longrightarrow> length r + length p = length s"
  by (induction p s rule: matchLiteral.induct) (auto split: if_splits)

lemma matchHeading_parts:
  assumes "matchHeading s = Some (sev, title, r)"
  shows "\<exists>s1 s3 s5. matchLiteral ''### '' s = Some s1
           \<and> takeWhile isDigit s1 \<noteq> []
           \<and> matchLiteral ''. ['' (dropWhile isDigit s1) = Some s3
           \<and> sev = takeWhile isWordChar s3 \<and> sev \<noteq> []
           \<and> matchLiteral ''] '' (dropWhile isWordChar s3) = Some s5
           \<and> title = takeWhile (\<lambda>c. \<not> isLineTerminator c) s5 \<and> title \<noteq> []
           \<and> dropWhile (\<lambda>c. \<not> isLineTerminator c) s5 = CHR 0x0A # r"
  using assms unfolding matchHeading_def
  by (auto split: option.splits if_splits list.splits)

lemma matchHeading_shorter:
  assumes "matchHeading s = Some (sev, title, r)"
  shows "length r < length s"
proof -
  from matchHeading_parts[OF assms] obtain s1 s3 s5 where
    p: "matchLiteral ''### '' s = Some s1"
       "matchLiteral ''. ['' (dropWhile isDigit s1) = Some s3"
       "matchLiteral ''] '' (dropWhile isWordChar s3) = Some s5"
       "dropWhile (\<lambda>c. \<not> isLineTerminator c) s5 = CHR 0x0A # r"
    by blast
  have "length r < length s5"
    using length_dropWhile_le[of "\<lambda>c. \<not> isLineTerminator c" s5] p(4) by simp
  also have "\<dots> \<le> length (dropWhile isWordChar s3)"
    using matchLiteral_length[OF p(3)] by simp
  also have "\<dots> \<le> length s3"
    by (rule length_dropWhile_le)
  also have "\<dots> \<le> length (dropWhile isDigit s1)"
    using matchLiteral_length[OF p(2)] by simp
  also have "\<dots> \<le> length s1"
    by (rule length_dropWhile_le)
  also have "\<dots> \<le> length s"
    using matchLiteral_length[OF p(1)] by simp
  finally show ?thesis .
qed

lemma splitBody_length: "length (snd (splitBody s)) \<le> length s"
  by (induction s) (auto simp: le_SucI split: prod.splits)

lemma next_search_shorter:
  "matchHeading (c # cs) = Some (sev, title, r) \<Longrightarrow> (body, rest) = splitBody r \<Longrightarrow>
   length rest < Suc (length cs)"
  using matchHeading_shorter[of "c # cs" sev title r] splitBody_length[of r]
  by (cases "splitBody r") simp

subsection \<open>\<^verbatim>\<open>parseFindingsMarkdown\<close> and \<^verbatim>\<open>parseReviewMarkdown\<close>\<close>

text \<open>
  \<^verbatim>\<open>parseInt(extractField(body, 'Line') || '0', 10) || undefined\<close>: zero (of either
  sign) and \<^verbatim>\<open>NaN\<close> are falsy.
\<close>

definition lineOf :: "string \<Rightarrow> JsNumber option" where
  "lineOf body =
     (case parseInt (orElse (extractField body ''Line'') ''0'') of
        None \<Rightarrow> None
      | Some n \<Rightarrow> if n = Finite 0 then None else Some n)"

text \<open>The record one match of the block expression pushes.\<close>

definition findingOf :: "nat \<Rightarrow> string \<Rightarrow> string \<Rightarrow> string \<Rightarrow> SlopItem" where
  "findingOf index severity title body =
     \<lparr>item_id = ''slop-'' @ decimal index,
      item_title = trim title,
      item_description = orElse (extractField body ''Description'') [],
      item_file = orElse (extractField body ''File'') ''unknown'',
      item_line = lineOf body,
      item_severity = toLowerCase severity,
      item_category = orElse (extractField body ''Category'') ''style-inconsistency'',
      item_selected = False\<rparr>"

definition suggestionOf :: "nat \<Rightarrow> string \<Rightarrow> string \<Rightarrow> string \<Rightarrow> ReviewSuggestion" where
  "suggestionOf index severity title body =
     \<lparr>sug_id = ''review-'' @ decimal index,
      sug_title = trim title,
      sug_description = orElse (extractField body ''Description'') [],
      sug_file = orElse (extractField body ''File'') ''unknown'',
      sug_line = lineOf body,
      sug_severity = toLowerCase severity\<rparr>"

text \<open>
  The \<^verbatim>\<open>while ((match = regex.exec(content)) !== null)\<close> loop of both parsers, over the
  input from \<^verbatim>\<open>lastIndex\<close> on, with the record to push as a parameter: where the
  expression matches, the next search starts after the body; where it does not, at the
  next position.
\<close>

function blocksFrom :: "(nat \<Rightarrow> string \<Rightarrow> string \<Rightarrow> string \<Rightarrow> 'a) \<Rightarrow> nat \<Rightarrow> string \<Rightarrow> 'a list" where
  "blocksFrom build index [] = []"
| "blocksFrom build index (c # cs) =
     (case matchHeading (c # cs) of
        None \<Rightarrow> blocksFrom build index cs
      | Some (severity, title, afterHeading) \<Rightarrow>
          (case splitBody afterHeading of
             (body, rest) \<Rightarrow>
               build index severity title body # blocksFrom build (index + 1) rest))"
  by pat_completeness auto
termination
proof (relation "measure (\<lambda>(build, index, s). length s)", goal_cases)
  case 1
  show ?case by simp
next
  case 2
  show ?case by simp
next
  case 3
  then show ?case
    by (auto simp del: splitBody.simps dest: next_search_shorter)
qed

definition parseFindingsMarkdown :: "string \<Rightarrow> SlopItem list" where
  "parseFindingsMarkdown content = blocksFrom findingOf 0 content"

definition parseReviewMarkdown :: "string \<Rightarrow> ReviewSuggestion list" where
  "parseReviewMarkdown content =
     (if stringIncludes content ''No suggestions'' \<or> stringIncludes content ''NO_SUGGESTIONS''
         \<or> stringIncludes content ''looks good''
      then []
      else blocksFrom suggestionOf 0 content)"

section \<open>Vocabulary of the properties\<close>

subsection \<open>Observations on the verification phase\<close>

text \<open>The commands a process was started for, in order, and the attempts whose fix prompt was submitted.\<close>

definition ranCommands :: "Effect list \<Rightarrow> VerificationCommand list" where
  "ranCommands tr = concat (map (\<lambda>e. case e of RunCommand c \<Rightarrow> [c] | _ \<Rightarrow> []) tr)"

definition fixAttempts :: "Effect list \<Rightarrow> int list" where
  "fixAttempts tr = concat (map (\<lambda>e. case e of SubmitFix c out a \<Rightarrow> [a] | _ \<Rightarrow> []) tr)"

text \<open>The statuses of the commands of the verification state, and the state's status.\<close>

definition commandStatuses :: "App \<Rightarrow> CommandStatus list" where
  "commandStatuses s =
     (case app_verificationState s of
        None \<Rightarrow> []
      | Some st \<Rightarrow> map cmd_status (vs_commands st))"

definition verificationStatus :: "App \<Rightarrow> VerificationStatus option" where
  "verificationStatus s = map_option vs_status (app_verificationState s)"

text \<open>
  A command blocks the pass when it is required and the process started for it fails: the
  condition \<^verbatim>\<open>!result.success && !cmd.optional\<close> of the loop. It rejects when the promise
  of \<^verbatim>\<open>runVerificationCommand\<close> does.
\<close>

definition blocks :: "string \<Rightarrow> int \<Rightarrow> VerificationCommand \<Rightarrow> Spawn \<Rightarrow> bool" where
  "blocks directory timeout cmd spawn =
     (case runVerificationCommand spawn cmd directory timeout of
        Inl message \<Rightarrow> False
      | Inr result \<Rightarrow> \<not> res_success result \<and> \<not> cmd_optional cmd)"

definition rejects :: "string \<Rightarrow> int \<Rightarrow> VerificationCommand \<Rightarrow> Spawn \<Rightarrow> bool" where
  "rejects directory timeout cmd spawn =
     (case runVerificationCommand spawn cmd directory timeout of
        Inl message \<Rightarrow> True
      | Inr result \<Rightarrow> False)"

text \<open>The result the promise for the command at \<open>k\<close> resolves with, when it does.\<close>

definition resultAt ::
  "string \<Rightarrow> int \<Rightarrow> (nat \<Rightarrow> Spawn) \<Rightarrow> VerificationCommand list \<Rightarrow> nat \<Rightarrow> VerificationResult" where
  "resultAt directory timeout procs commands k =
     projr (runVerificationCommand (procs k) (commands ! k) directory timeout)"

text \<open>The command at \<open>k\<close> as the loop stores it in \<^verbatim>\<open>failedCommand\<close>.\<close>

definition failedAt ::
  "string \<Rightarrow> int \<Rightarrow> (nat \<Rightarrow> Spawn) \<Rightarrow> VerificationCommand list \<Rightarrow> nat \<Rightarrow> VerificationCommand" where
  "failedAt directory timeout procs commands k =
     (commands ! k)
       \<lparr>cmd_exitCode := Some (res_exitCode (resultAt directory timeout procs commands k)),
        cmd_output := Some (res_output (resultAt directory timeout procs commands k))\<rparr>"

definition stops :: "string \<Rightarrow> int \<Rightarrow> VerificationCommand \<Rightarrow> Spawn \<Rightarrow> bool" where
  "stops directory timeout cmd spawn =
     (blocks directory timeout cmd spawn \<or> rejects directory timeout cmd spawn)"

text \<open>
  How a pass over \<open>commands\<close> ends, read off the environment: it fails at \<open>k\<close> when the
  command at \<open>k\<close> is the first that stops the loop, and blocks; it rejects at \<open>k\<close> when
  that command rejects; it succeeds when no command stops the loop.
\<close>

definition passFailsAt ::
  "string \<Rightarrow> int \<Rightarrow> (nat \<Rightarrow> Spawn) \<Rightarrow> VerificationCommand list \<Rightarrow> nat \<Rightarrow> bool" where
  "passFailsAt directory timeout procs commands k =
     (k < length commands
      \<and> blocks directory timeout (commands ! k) (procs k)
      \<and> list_all (\<lambda>m. \<not> stops directory timeout (commands ! m) (procs m)) [0..<k])"

definition passRejectsAt ::
  "string \<Rightarrow> int \<Rightarrow> (nat \<Rightarrow> Spawn) \<Rightarrow> VerificationCommand list \<Rightarrow> nat \<Rightarrow> bool" where
  "passRejectsAt directory timeout procs commands k =
     (k < length commands
      \<and> rejects directory timeout (commands ! k) (procs k)
      \<and> list_all (\<lambda>m. \<not> stops directory timeout (commands ! m) (procs m)) [0..<k])"

definition passSucceeds ::
  "string \<Rightarrow> int \<Rightarrow> (nat \<Rightarrow> Spawn) \<Rightarrow> VerificationCommand list \<Rightarrow> bool" where
  "passSucceeds directory timeout procs commands =
     list_all (\<lambda>m. \<not> stops directory timeout (commands ! m) (procs m)) [0..<length commands]"

text \<open>
  The commands a pass starts a process for: those up to the first that stops the loop,
  with that one when it blocks (its process ran) and without it when it rejects.
\<close>

definition started ::
  "string \<Rightarrow> int \<Rightarrow> (nat \<Rightarrow> Spawn) \<Rightarrow> VerificationCommand list \<Rightarrow> VerificationCommand list" where
  "started directory timeout procs commands =
     (case find (\<lambda>m. stops directory timeout (commands ! m) (procs m)) [0..<length commands] of
        None \<Rightarrow> commands
      | Some k \<Rightarrow>
          if blocks directory timeout (commands ! k) (procs k)
          then take (Suc k) commands else take k commands)"

text \<open>
  The attempts from \<open>attempt\<close> up to \<open>a\<close>, without \<open>a\<close>, each go through the whole fix-retry
  branch: the attempt is below \<open>maxRetries\<close>, its pass fails, and the submission of its
  fix prompt completes.
\<close>

definition retriedUpTo ::
  "World \<Rightarrow> string \<Rightarrow> int \<Rightarrow> int \<Rightarrow> VerificationCommand list \<Rightarrow> int \<Rightarrow> int \<Rightarrow> bool" where
  "retriedUpTo world directory timeout maxRetries commands attempt a =
     list_all (\<lambda>b. b < maxRetries
                 \<and> list_ex (passFailsAt directory timeout (world_proc world b) commands)
                      [0..<length commands]
                 \<and> world_fix world b = None)
       [attempt..a - 1]"

text \<open>
  The pass of attempt \<open>a\<close> is the last one: it succeeds, or it rejects, or it fails with
  no retry left or with a fix agent that throws.
\<close>

definition lastPass ::
  "World \<Rightarrow> string \<Rightarrow> int \<Rightarrow> int \<Rightarrow> VerificationCommand list \<Rightarrow> int \<Rightarrow> bool" where
  "lastPass world directory timeout maxRetries commands a =
     (passSucceeds directory timeout (world_proc world a) commands
      \<or> list_ex (passRejectsAt directory timeout (world_proc world a) commands) [0..<length commands]
      \<or> (list_ex (passFailsAt directory timeout (world_proc world a) commands) [0..<length commands]
          \<and> (maxRetries \<le> a \<or> world_fix world a \<noteq> None)))"

text \<open>
  The commands attempt \<open>b\<close> runs over, in a run that starts at \<open>attempt\<close>: the given ones
  at first, and after a fix the same commands reset to pending.
\<close>

definition attemptCommands ::
  "VerificationCommand list \<Rightarrow> int \<Rightarrow> int \<Rightarrow> VerificationCommand list" where
  "attemptCommands commands attempt b =
     (if b = attempt then commands else map (\<lambda>c. c\<lparr>cmd_status := CmdPending\<rparr>) commands)"

text \<open>
  What the fix-retry branch makes of the outcome of its recursive call: a rejection goes
  to the \<^verbatim>\<open>catch\<close> block.
\<close>

definition caught :: "App \<times> string option \<Rightarrow> App \<times> string option" where
  "caught outcome =
     (case snd outcome of
        None \<Rightarrow> (fst outcome, None)
      | Some message \<Rightarrow> (catchFixError message (fst outcome), None))"

subsection \<open>Example inputs\<close>

text \<open>
  A \<^verbatim>\<open>spawn\<close> that validates its arguments as Node's does (an empty command line and a
  timeout outside the integers from 0 to \<open>2^53 - 1\<close> make it throw, with the error code for
  message) and otherwise starts a process that runs as given.
\<close>

definition nodeSpawn :: "ProcRun \<Rightarrow> Spawn" where
  "nodeSpawn run file options =
     (if file = [] then Throws ''ERR_INVALID_ARG_VALUE''
      else if opt_timeout options < 0 \<or> 9007199254740991 < opt_timeout options
      then Throws ''ERR_OUT_OF_RANGE''
      else Spawned run)"

text \<open>
  The state \<^verbatim>\<open>runVerification\<close> starts the loop in, a process that exits with a given
  code, and the scenarios of the specification: build, test and lint where the build
  fails on every attempt (with a fix agent that works and with one that throws) or on the
  first attempt only, and build and lint where only the optional lint fails.
\<close>

definition startState :: "VerificationCommand list \<Rightarrow> int \<Rightarrow> App" where
  "startState discovered maxRetries =
     \<lparr>app_phase = Verifying,
      app_verificationState = Some
        \<lparr>vs_commands = discovered,
         vs_currentCommandIndex = 0,
         vs_attempt = 1,
         vs_maxAttempts = maxRetries,
         vs_status = VsRunning,
         vs_lastError = None\<rparr>,
      app_trace = []\<rparr>"

definition exitsWith :: "int \<Rightarrow> ProcRun" where
  "exitsWith code = \<lparr>proc_event = Close (Some code), proc_captured = ''out'', proc_elapsed = 5\<rparr>"

definition buildTestLint :: "VerificationCommand list" where
  "buildTestLint =
     [createCommand ''build'' ''npm run build'' Build False,
      createCommand ''test'' ''npm run test'' Test False,
      createCommand ''lint'' ''npm run lint'' Lint True]"

definition buildLint :: "VerificationCommand list" where
  "buildLint =
     [createCommand ''build'' ''npm run build'' Build False,
      createCommand ''lint'' ''npm run lint'' Lint True]"

definition buildAlwaysFails :: World where
  "buildAlwaysFails =
     \<lparr>world_proc = (\<lambda>attempt i. nodeSpawn (if i = 0 then exitsWith 1 else exitsWith 0)),
      world_fix = (\<lambda>attempt. None)\<rparr>"

definition buildFailsOnce :: World where
  "buildFailsOnce =
     \<lparr>world_proc = (\<lambda>attempt i. nodeSpawn (if i = 0 \<and> attempt = 1 then exitsWith 1 else exitsWith 0)),
      world_fix = (\<lambda>attempt. None)\<rparr>"

definition fixThrows :: World where
  "fixThrows =
     \<lparr>world_proc = (\<lambda>attempt i. nodeSpawn (if i = 0 then exitsWith 1 else exitsWith 0)),
      world_fix = (\<lambda>attempt. Some ''agent unavailable'')\<rparr>"

definition lintFails :: World where
  "lintFails =
     \<lparr>world_proc = (\<lambda>attempt i. nodeSpawn (if i = 1 then exitsWith 2 else exitsWith 0)),
      world_fix = (\<lambda>attempt. None)\<rparr>"


subsection \<open>Lemmas about selection and discovery\<close>

text \<open>A finding of the hint-only category, not selected.\<close>

definition hintFinding :: SlopItem where
  "hintFinding =
     \<lparr>item_id = ''slop-0'', item_title = ''Start Case label'', item_description = ''Input Your Password'',
      item_file = ''src/Login.tsx'', item_line = Some (Finite 12), item_severity = ''low'',
      item_category = ''ui-slop'', item_selected = False\<rparr>"

text \<open>
  The type priority the specification names: build, typecheck, test, lint.
\<close>

definition typePriority :: "CommandType \<Rightarrow> nat" where
  "typePriority t = (case t of Build \<Rightarrow> 0 | Typecheck \<Rightarrow> 1 | Test \<Rightarrow> 2 | Lint \<Rightarrow> 3)"

text \<open>The two arrays of the discoverer before the first block.\<close>

definition nothingFound :: DiscoveryResult where
  "nothingFound = \<lparr>dr_commands = [], dr_sources = []\<rparr>"

text \<open>
  A Python project whose \<^verbatim>\<open>pyproject.toml\<close> configures pytest and mypy, and a directory
  that holds both a \<^verbatim>\<open>package.json\<close> with build and lint scripts and a \<^verbatim>\<open>Cargo.toml\<close>.
\<close>

definition pythonProject :: Project where
  "pythonProject =
     \<lparr>packageJson = Missing, cargoToml = False,
      pyprojectToml = Contents ''[tool.pytest]\<newline>[tool.mypy]\<newline>'',
      goMod = False, makefile = Missing\<rparr>"

definition nodeAndRustProject :: Project where
  "nodeAndRustProject =
     \<lparr>packageJson = Contents (\<lambda>name. name = ''lint'' \<or> name = ''build''), cargoToml = True,
      pyprojectToml = Missing, goMod = False, makefile = Missing\<rparr>"

subsection \<open>Lemmas about the parsers\<close>

text \<open>A review with one suggestion whose description holds the words of a sentinel.\<close>

definition reviewWithSentinel :: string where
  "reviewWithSentinel =
     ''## Suggestions\<newline>\<newline>### 1. [LOW] Rename the helper\<newline>- **File:** a.ts\<newline>- **Description:** The rest looks good\<newline>''"

text \<open>
  The text holds the label of a bullet, \<^verbatim>\<open>**Field:**\<close> in any letter case, at some
  position: what the expression of \<open>extractField\<close> needs to match at all.
\<close>

fun hasLabel :: "string \<Rightarrow> string \<Rightarrow> bool" where
  "hasLabel [] field = (matchLiteralCI (''**'' @ field @ '':**'') [] \<noteq> None)"
| "hasLabel (c # cs) field =
     (matchLiteralCI (''**'' @ field @ '':**'') (c # cs) \<noteq> None \<or> hasLabel cs field)"

text \<open>
  The text has the bullet of a field: one of its lines starts with \<^verbatim>\<open>- **Field:**\<close>, as
  the bullets of the prompt's format do.
\<close>

fun linesOf :: "string \<Rightarrow> string list" where
  "linesOf [] = [[]]"
| "linesOf (c # cs) =
     (if c = CHR 0x0A then [] # linesOf cs
      else (case linesOf cs of l # ls \<Rightarrow> (c # l) # ls | [] \<Rightarrow> [[c]]))"

definition hasBullet :: "string \<Rightarrow> string \<Rightarrow> bool" where
  "hasBullet body field = list_ex (prefix (''- **'' @ field @ '':**'')) (linesOf body)"

text \<open>
  Three issue blocks: one with a heading and none of the four bullets; one with the file
  and the description and neither line nor category; and one with no file and no line
  bullet, whose description quotes both labels.
\<close>

definition bareBlock :: string where
  "bareBlock = ''### 7. [HIGH] Unused helper\<newline>no bullets here\<newline>''"

definition partialBlock :: string where
  "partialBlock =
     ''### 2. [LOW] Stale comment\<newline>- **File:** a.ts\<newline>- **Description:** Says what the code says\<newline>''"

definition quotingBlock :: string where
  "quotingBlock =
     ''### 1. [HIGH] Stale notice\<newline>- **Category:** extra-comments\<newline>- **Description:** The notice still says **File:** b.ts, **Line:** 5\<newline>''"

text \<open>
  The write side of the findings codec is the agent that follows the prompt of
  \<^verbatim>\<open>generateSlopDetectionPrompt\<close>; the format is the template of that prompt. An issue
  as the template has it: the heading \<^verbatim>\<open>### <n>. [<SEVERITY>] <title>\<close> and the four
  bullets, each on a line of its own, with the number and the line in decimal. The
  document is the two headings of the template and the issues, numbered from 1, with a
  blank line between them.
\<close>

record WrittenIssue =
  w_severity :: string
  w_title :: string
  w_file :: string
  w_line :: nat
  w_category :: string
  w_description :: string

definition renderHeading :: "nat \<Rightarrow> WrittenIssue \<Rightarrow> string" where
  "renderHeading n w =
     ''### '' @ decimal n @ ''. ['' @ w_severity w @ ''] '' @ w_title w @ ''\<newline>''"

definition renderBullets :: "WrittenIssue \<Rightarrow> string" where
  "renderBullets w =
     ''- **File:** '' @ w_file w @ ''\<newline>''
     @ ''- **Line:** '' @ decimal (w_line w) @ ''\<newline>''
     @ ''- **Category:** '' @ w_category w @ ''\<newline>''
     @ ''- **Description:** '' @ w_description w @ ''\<newline>''"

definition renderIssue :: "nat \<Rightarrow> WrittenIssue \<Rightarrow> string" where
  "renderIssue n w = renderHeading n w @ renderBullets w"

fun renderIssues :: "nat \<Rightarrow> WrittenIssue list \<Rightarrow> string" where
  "renderIssues n [] = []"
| "renderIssues n (w # ws) =
     renderIssue n w @ (if ws = [] then [] else ''\<newline>'' @ renderIssues (Suc n) ws)"

definition renderFindings :: "WrittenIssue list \<Rightarrow> string" where
  "renderFindings ws =
     ''# Deslop Scan Results\<newline>\<newline>## Issues Found\<newline>\<newline>'' @ renderIssues 1 ws"

text \<open>The record the round trip expects for the issue written at position \<open>index\<close>.\<close>

definition expectedFinding :: "nat \<Rightarrow> WrittenIssue \<Rightarrow> SlopItem" where
  "expectedFinding index w =
     \<lparr>item_id = ''slop-'' @ decimal index,
      item_title = w_title w,
      item_description = w_description w,
      item_file = w_file w,
      item_line = Some (Finite (int (w_line w))),
      item_severity = toLowerCase (w_severity w),
      item_category = w_category w,
      item_selected = False\<rparr>"

text \<open>
  A value the parser reads back as written: not empty, on one line, with no white space
  at either end.
\<close>

definition plainValue :: "string \<Rightarrow> bool" where
  "plainValue v =
     (v \<noteq> [] \<and> list_all (\<lambda>c. \<not> isLineTerminator c) v \<and> \<not> isSpace (hd v) \<and> \<not> isSpace (last v))"

text \<open>
  The issues the round trip holds for. The severity is a word. The values are plain. No
  value of the body holds \<^verbatim>\<open>## \<close>, where the lazy body of the block expression would
  stop, and no value holds the label of a bullet that comes after it, which the search
  for that bullet would find first. The line is a positive number that a JavaScript
  number holds exactly.
\<close>

definition wellFormedIssue :: "WrittenIssue \<Rightarrow> bool" where
  "wellFormedIssue w =
     (w_severity w \<noteq> [] \<and> list_all isWordChar (w_severity w)
      \<and> plainValue (w_title w)
      \<and> plainValue (w_file w) \<and> \<not> stringIncludes (w_file w) ''## ''
      \<and> \<not> hasLabel (w_file w) ''Line'' \<and> \<not> hasLabel (w_file w) ''Category''
      \<and> \<not> hasLabel (w_file w) ''Description''
      \<and> 0 < w_line w \<and> int (w_line w) < 2 ^ 53
      \<and> plainValue (w_category w) \<and> \<not> stringIncludes (w_category w) ''## ''
      \<and> \<not> hasLabel (w_category w) ''Description''
      \<and> plainValue (w_description w) \<and> \<not> stringIncludes (w_description w) ''## '')"

text \<open>
  Three issues in the format of the prompt; in the second list the first description
  mentions a markdown heading.
\<close>

definition threeIssues :: "WrittenIssue list" where
  "threeIssues =
     [\<lparr>w_severity = ''HIGH'', w_title = ''Redundant null check'', w_file = ''src/api/user.ts'',
       w_line = 42, w_category = ''defensive-checks'',
       w_description = ''The value is validated upstream''\<rparr>,
      \<lparr>w_severity = ''MEDIUM'', w_title = ''Comment restates the code'', w_file = ''src/util.ts'',
       w_line = 15, w_category = ''extra-comments'',
       w_description = ''Remove the comment above stop()''\<rparr>,
      \<lparr>w_severity = ''LOW'', w_title = ''Cast to any'', w_file = ''src/index.ts'',
       w_line = 7, w_category = ''any-cast'',
       w_description = ''Use the declared type''\<rparr>]"

definition threeIssuesWithHeading :: "WrittenIssue list" where
  "threeIssuesWithHeading =
     [\<lparr>w_severity = ''HIGH'', w_title = ''Generated README section'', w_file = ''README.md'',
       w_line = 3, w_category = ''generated-docs'',
       w_description = ''The ## Overview section is boilerplate''\<rparr>,
      \<lparr>w_severity = ''MEDIUM'', w_title = ''Comment restates the code'', w_file = ''src/util.ts'',
       w_line = 15, w_category = ''extra-comments'',
       w_description = ''Remove the comment above stop()''\<rparr>,
      \<lparr>w_severity = ''LOW'', w_title = ''Cast to any'', w_file = ''src/index.ts'',
       w_line = 7, w_category = ''any-cast'',
       w_description = ''Use the declared type''\<rparr>]"

chapter \<open>Properties\<close>

section \<open>Lemmas about the executor\<close>

lemma truncateOutput_long:
  "maxLength < length output \<Longrightarrow> 0 < maxLength \<Longrightarrow>
   truncateOutput output maxLength = ''...[truncated]...\<newline>'' @ drop (length output - maxLength) output"
  by (simp add: truncateOutput_def sliceFromEnd_def)

lemma drop_tail_append:
  "n \<le> length ys \<Longrightarrow> drop (length (xs @ ys) - n) (xs @ ys) = drop (length ys - n) ys"
  by simp

lemma runVerificationCommand_rejects_iff:
  "(\<exists>message. runVerificationCommand spawn command directory timeout = Inl message) \<longleftrightarrow>
     (\<exists>message. spawn (cmd_command command)
         \<lparr>opt_cwd = directory, opt_shell = True, opt_timeout = timeout * 1000\<rparr> = Throws message)"
  by (auto simp: runVerificationCommand_def split: SpawnOutcome.splits ProcEvent.splits)

lemma runVerificationCommand_resolves:
  assumes "spawn (cmd_command command)
             \<lparr>opt_cwd = directory, opt_shell = True, opt_timeout = timeout * 1000\<rparr> = Spawned run"
  shows "\<exists>result. runVerificationCommand spawn command directory timeout = Inr result
       \<and> (res_success result \<longleftrightarrow> proc_event run = Close (Some 0))
       \<and> (\<forall>message. proc_event run = Error message \<longrightarrow>
             \<not> res_success result
             \<and> res_exitCode result = 1
             \<and> res_output result = ''Failed to run command: '' @ message @ ''\<newline>'' @ proc_captured run)
       \<and> (\<forall>code. proc_event run = Close code \<longrightarrow>
             res_exitCode result = (case code of Some c \<Rightarrow> c | None \<Rightarrow> 1)
             \<and> (length (proc_captured run) \<le> 10000 \<longrightarrow> res_output result = proc_captured run)
             \<and> (10000 < length (proc_captured run) \<longrightarrow>
                   res_output result =
                     ''...[truncated]...\<newline>'' @ drop (length (proc_captured run) - 10000) (proc_captured run)))
       \<and> (10000 < length (proc_captured run) \<longrightarrow>
             drop (length (res_output result) - 10000) (res_output result)
             = drop (length (proc_captured run) - 10000) (proc_captured run))"
proof (cases "proc_event run")
  case (Close code)
  then show ?thesis
    using assms by (auto simp: runVerificationCommand_def truncateOutput_def sliceFromEnd_def)
next
  case (Error message)
  have "10000 < length (proc_captured run) \<Longrightarrow>
        drop (length ((''Failed to run command: '' @ message @ ''\<newline>'') @ proc_captured run) - 10000)
             ((''Failed to run command: '' @ message @ ''\<newline>'') @ proc_captured run)
        = drop (length (proc_captured run) - 10000) (proc_captured run)"
    by (rule drop_tail_append) simp
  with Error show ?thesis
    using assms by (simp add: runVerificationCommand_def)
qed

section \<open>Lemmas about the verification pass\<close>

declare executeVerification.simps [simp del]

lemma ranCommands_append [simp]: "ranCommands (a @ b) = ranCommands a @ ranCommands b"
  by (simp add: ranCommands_def)

lemma fixAttempts_append [simp]: "fixAttempts (a @ b) = fixAttempts a @ fixAttempts b"
  by (simp add: fixAttempts_def)

lemma mapIndexed_at:
  "mapIndexed (\<lambda>c idx. if idx = i then g c else c) xs = (if i < length xs then xs[i := g (xs ! i)] else xs)"
  by (rule nth_equalityI) (auto simp: mapIndexed_def nth_enumerate_eq nth_list_update)

lemma All_less_Suc_shift: "(\<forall>k<Suc n. P k) \<longleftrightarrow> P 0 \<and> (\<forall>k<n. P (Suc k))"
  by (metis less_Suc_eq_0_disj)

lemma commandStatuses_effect [simp]: "commandStatuses (effect e s) = commandStatuses s"
  by (simp add: commandStatuses_def effect_def)

lemma trace_setVerificationState [simp]: "app_trace (setVerificationState f s) = app_trace s"
  by (simp add: setVerificationState_def)

lemma trace_effect [simp]: "app_trace (effect e s) = app_trace s @ [e]"
  by (simp add: effect_def)

lemma phase_setVerificationState [simp]: "app_phase (setVerificationState f s) = app_phase s"
  by (simp add: setVerificationState_def)

lemma phase_effect [simp]: "app_phase (effect e s) = app_phase s"
  by (simp add: effect_def)

lemma commandStatuses_mark:
  assumes "\<And>c. cmd_status (g c) = x"
    and "\<And>prev. vs_commands (h prev) = vs_commands prev"
  shows "commandStatuses (setVerificationState (\<lambda>prev. (h prev)
           \<lparr>vs_commands := mapIndexed (\<lambda>c idx. if idx = i then g c else c) (vs_commands prev)\<rparr>) s)
         = (commandStatuses s)[i := x]"
  using assms
  by (cases "app_verificationState s")
     (simp_all add: commandStatuses_def setVerificationState_def mapIndexed_at map_update list_update_beyond)

lemma verificationStatus_effect [simp]: "verificationStatus (effect e s) = verificationStatus s"
  by (simp add: verificationStatus_def effect_def)

lemma verificationStatus_set_status [simp]:
  "verificationStatus (setVerificationState (\<lambda>prev. prev\<lparr>vs_status := x\<rparr>) s)
     = map_option (\<lambda>_. x) (verificationStatus s)"
  by (cases "app_verificationState s") (simp_all add: verificationStatus_def setVerificationState_def)

lemma verificationStatus_keep:
  "(\<And>prev. vs_status (f prev) = vs_status prev) \<Longrightarrow>
   verificationStatus (setVerificationState f s) = verificationStatus s"
  by (cases "app_verificationState s") (simp_all add: verificationStatus_def setVerificationState_def)

text \<open>The three outcomes of a command, as the loop sees them.\<close>

lemma outcome_cases:
  obtains (Rejects) message where "runVerificationCommand spawn cmd directory timeout = Inl message"
      "rejects directory timeout cmd spawn" "\<not> blocks directory timeout cmd spawn"
  | (Blocks) result where "runVerificationCommand spawn cmd directory timeout = Inr result"
      "\<not> res_success result" "\<not> cmd_optional cmd"
      "blocks directory timeout cmd spawn" "\<not> rejects directory timeout cmd spawn"
  | (GoesOn) result where "runVerificationCommand spawn cmd directory timeout = Inr result"
      "res_success result \<or> cmd_optional cmd"
      "\<not> blocks directory timeout cmd spawn" "\<not> rejects directory timeout cmd spawn"
  by (cases "runVerificationCommand spawn cmd directory timeout")
     (auto simp: blocks_def rejects_def)

lemma blocks_result:
  "blocks directory timeout cmd spawn \<Longrightarrow>
   \<exists>result. runVerificationCommand spawn cmd directory timeout = Inr result
     \<and> \<not> res_success result \<and> \<not> cmd_optional cmd"
  by (cases "runVerificationCommand spawn cmd directory timeout") (auto simp: blocks_def)

lemma rejects_message:
  "rejects directory timeout cmd spawn \<Longrightarrow>
   \<exists>message. runVerificationCommand spawn cmd directory timeout = Inl message"
  by (cases "runVerificationCommand spawn cmd directory timeout") (auto simp: rejects_def)

lemma goes_on_result:
  "\<not> stops directory timeout cmd spawn \<Longrightarrow>
   \<exists>result. runVerificationCommand spawn cmd directory timeout = Inr result
     \<and> (res_success result \<or> cmd_optional cmd)"
  by (cases "runVerificationCommand spawn cmd directory timeout")
     (auto simp: stops_def blocks_def rejects_def)

lemma pass_step_rejects:
  assumes "rejects directory timeout cmd (procs i)"
  shows "commandStatuses (fst (verificationPass directory timeout procs i (cmd # rest) s))
           = (commandStatuses s)[i := CmdRunning]"
    and "app_trace (fst (verificationPass directory timeout procs i (cmd # rest) s)) = app_trace s"
    and "snd (verificationPass directory timeout procs i (cmd # rest) s)
           = Inl (projl (runVerificationCommand (procs i) cmd directory timeout))"
    and "verificationStatus (fst (verificationPass directory timeout procs i (cmd # rest) s))
           = verificationStatus s"
    and "app_phase (fst (verificationPass directory timeout procs i (cmd # rest) s)) = app_phase s"
proof -
  from rejects_message[OF assms] obtain message where
    m: "runVerificationCommand (procs i) cmd directory timeout = Inl message"
    by blast
  have m1: "commandStatuses (setVerificationState (\<lambda>prev. (prev\<lparr>vs_currentCommandIndex := i\<rparr>)
             \<lparr>vs_commands := mapIndexed (\<lambda>c idx. if idx = i then c\<lparr>cmd_status := CmdRunning\<rparr> else c)
                 (vs_commands prev)\<rparr>) s) = (commandStatuses s)[i := CmdRunning]"
    by (rule commandStatuses_mark) simp_all
  show "commandStatuses (fst (verificationPass directory timeout procs i (cmd # rest) s))
           = (commandStatuses s)[i := CmdRunning]"
    using m1 by (simp add: m Let_def)
  show "app_trace (fst (verificationPass directory timeout procs i (cmd # rest) s)) = app_trace s"
    by (simp add: m Let_def)
  show "snd (verificationPass directory timeout procs i (cmd # rest) s)
           = Inl (projl (runVerificationCommand (procs i) cmd directory timeout))"
    by (simp add: m Let_def)
  show "verificationStatus (fst (verificationPass directory timeout procs i (cmd # rest) s))
           = verificationStatus s"
    by (simp add: m Let_def verificationStatus_keep)
  show "app_phase (fst (verificationPass directory timeout procs i (cmd # rest) s)) = app_phase s"
    by (simp add: m Let_def)
qed

lemma pass_step_blocks:
  assumes "blocks directory timeout cmd (procs i)"
  shows "commandStatuses (fst (verificationPass directory timeout procs i (cmd # rest) s))
           = (commandStatuses s)[i := CmdFailed]"
    and "app_trace (fst (verificationPass directory timeout procs i (cmd # rest) s)) =
           app_trace s @ [RunCommand cmd,
             LogVerificationFailed (cmd_command cmd)
               (res_exitCode (projr (runVerificationCommand (procs i) cmd directory timeout)))]"
    and "snd (verificationPass directory timeout procs i (cmd # rest) s) =
           Inr \<lparr>allPassed = False,
                failedCommand = Some (cmd
                  \<lparr>cmd_exitCode := Some (res_exitCode (projr (runVerificationCommand (procs i) cmd directory timeout))),
                   cmd_output := Some (res_output (projr (runVerificationCommand (procs i) cmd directory timeout)))\<rparr>),
                failedOutput = res_output (projr (runVerificationCommand (procs i) cmd directory timeout))\<rparr>"
    and "verificationStatus (fst (verificationPass directory timeout procs i (cmd # rest) s))
           = verificationStatus s"
    and "app_phase (fst (verificationPass directory timeout procs i (cmd # rest) s)) = app_phase s"
proof -
  from blocks_result[OF assms] obtain r where
    r: "runVerificationCommand (procs i) cmd directory timeout = Inr r"
    and c: "\<not> res_success r \<and> \<not> cmd_optional cmd"
    by blast
  have m1: "commandStatuses (setVerificationState (\<lambda>prev. (prev\<lparr>vs_currentCommandIndex := i\<rparr>)
             \<lparr>vs_commands := mapIndexed (\<lambda>c idx. if idx = i then c\<lparr>cmd_status := CmdRunning\<rparr> else c)
                 (vs_commands prev)\<rparr>) s) = (commandStatuses s)[i := CmdRunning]"
    by (rule commandStatuses_mark) simp_all
  have m2: "commandStatuses (setVerificationState (\<lambda>prev. prev
             \<lparr>vs_commands := mapIndexed (\<lambda>c idx. if idx = i
                 then c\<lparr>cmd_status := CmdFailed, cmd_exitCode := Some (res_exitCode r),
                        cmd_output := Some (res_output r)\<rparr> else c)
                 (vs_commands prev)\<rparr>) t) = (commandStatuses t)[i := CmdFailed]" for t
    by (rule commandStatuses_mark[where h = "\<lambda>prev. prev"]) simp_all
  show "commandStatuses (fst (verificationPass directory timeout procs i (cmd # rest) s))
           = (commandStatuses s)[i := CmdFailed]"
    using c m1 by (simp add: r Let_def m2)
  show "app_trace (fst (verificationPass directory timeout procs i (cmd # rest) s)) =
           app_trace s @ [RunCommand cmd,
             LogVerificationFailed (cmd_command cmd)
               (res_exitCode (projr (runVerificationCommand (procs i) cmd directory timeout)))]"
    using c by (simp add: r Let_def)
  show "snd (verificationPass directory timeout procs i (cmd # rest) s) =
           Inr \<lparr>allPassed = False,
                failedCommand = Some (cmd
                  \<lparr>cmd_exitCode := Some (res_exitCode (projr (runVerificationCommand (procs i) cmd directory timeout))),
                   cmd_output := Some (res_output (projr (runVerificationCommand (procs i) cmd directory timeout)))\<rparr>),
                failedOutput = res_output (projr (runVerificationCommand (procs i) cmd directory timeout))\<rparr>"
    using c by (simp add: r Let_def)
  show "verificationStatus (fst (verificationPass directory timeout procs i (cmd # rest) s))
           = verificationStatus s"
    using c by (simp add: r Let_def verificationStatus_keep)
  show "app_phase (fst (verificationPass directory timeout procs i (cmd # rest) s)) = app_phase s"
    using c by (simp add: r Let_def)
qed

lemma pass_step_continues:
  assumes "\<not> stops directory timeout cmd (procs i)"
  shows "\<exists>s'. verificationPass directory timeout procs i (cmd # rest) s
                = verificationPass directory timeout procs (Suc i) rest s'
           \<and> commandStatuses s' = (commandStatuses s)
                [i := if res_success (projr (runVerificationCommand (procs i) cmd directory timeout))
                      then CmdPassed else CmdSkipped]
           \<and> app_trace s' = app_trace s @ [RunCommand cmd,
                if res_success (projr (runVerificationCommand (procs i) cmd directory timeout))
                then LogVerificationPassed (cmd_command cmd)
                else LogVerificationSkipped (cmd_command cmd)]
           \<and> verificationStatus s' = verificationStatus s
           \<and> app_phase s' = app_phase s"
proof -
  from goes_on_result[OF assms] obtain r where
    r: "runVerificationCommand (procs i) cmd directory timeout = Inr r"
    and g: "res_success r \<or> cmd_optional cmd"
    by blast
  have c: "(\<not> res_success r \<and> \<not> cmd_optional cmd) = False"
    using g by simp
  have m1: "commandStatuses (setVerificationState (\<lambda>prev. (prev\<lparr>vs_currentCommandIndex := i\<rparr>)
             \<lparr>vs_commands := mapIndexed (\<lambda>c idx. if idx = i then c\<lparr>cmd_status := CmdRunning\<rparr> else c)
                 (vs_commands prev)\<rparr>) s) = (commandStatuses s)[i := CmdRunning]"
    by (rule commandStatuses_mark) simp_all
  have m2: "commandStatuses (setVerificationState (\<lambda>prev. prev
             \<lparr>vs_commands := mapIndexed (\<lambda>c idx. if idx = i then c\<lparr>cmd_status := x\<rparr> else c)
                 (vs_commands prev)\<rparr>) t) = (commandStatuses t)[i := x]" for t x
    by (rule commandStatuses_mark[where h = "\<lambda>prev. prev"]) simp_all
  show ?thesis
    apply (subst verificationPass.simps(2))
    apply (unfold Let_def)
    apply (simp only: r sum.case c if_False Suc_eq_plus1 [symmetric])
    apply (rule exI, rule conjI, rule refl)
    apply (simp add: m1 m2 verificationStatus_keep)
    done
qed

declare verificationPass.simps(2) [simp del]

lemma fixAttempts_simps [simp]:
  "fixAttempts [] = []"
  "fixAttempts (e # es) = (case e of SubmitFix c out a \<Rightarrow> [a] | _ \<Rightarrow> []) @ fixAttempts es"
  by (simp_all add: fixAttempts_def)

lemma ranCommands_simps [simp]:
  "ranCommands [] = []"
  "ranCommands (e # es) = (case e of RunCommand c \<Rightarrow> [c] | _ \<Rightarrow> []) @ ranCommands es"
  by (simp_all add: ranCommands_def)

lemma pass_invariants:
  "app_phase (fst (verificationPass directory timeout procs i rest s)) = app_phase s
   \<and> verificationStatus (fst (verificationPass directory timeout procs i rest s)) = verificationStatus s
   \<and> fixAttempts (app_trace (fst (verificationPass directory timeout procs i rest s)))
       = fixAttempts (app_trace s)
   \<and> length (commandStatuses (fst (verificationPass directory timeout procs i rest s)))
       = length (commandStatuses s)
   \<and> prefix (app_trace s) (app_trace (fst (verificationPass directory timeout procs i rest s)))
   \<and> (\<forall>j<i. commandStatuses (fst (verificationPass directory timeout procs i rest s)) ! j
              = commandStatuses s ! j)"
proof (induction rest arbitrary: i s)
  case Nil
  show ?case by simp
next
  case (Cons cmd rest)
  show ?case
  proof (cases rule: outcome_cases[of "procs i" cmd directory timeout])
    case (Rejects message)
    note st = pass_step_rejects[where directory = directory and timeout = timeout and procs = procs and i = i and cmd = cmd and rest = rest and s = s, OF Rejects(2)]
    show ?thesis
      by (simp add: st)
  next
    case (Blocks result)
    note st = pass_step_blocks[where directory = directory and timeout = timeout and procs = procs and i = i and cmd = cmd and rest = rest and s = s, OF Blocks(4)]
    show ?thesis
      by (simp add: st)
  next
    case (GoesOn result)
    then have ns: "\<not> stops directory timeout cmd (procs i)"
      by (simp add: stops_def)
    from pass_step_continues[where directory = directory and timeout = timeout and procs = procs and i = i and cmd = cmd and rest = rest and s = s, OF ns] obtain s' where
      s': "verificationPass directory timeout procs i (cmd # rest) s
             = verificationPass directory timeout procs (Suc i) rest s'"
          "commandStatuses s' = (commandStatuses s)
             [i := if res_success (projr (runVerificationCommand (procs i) cmd directory timeout))
                   then CmdPassed else CmdSkipped]"
          "app_trace s' = app_trace s @ [RunCommand cmd,
                if res_success (projr (runVerificationCommand (procs i) cmd directory timeout))
                then LogVerificationPassed (cmd_command cmd)
                else LogVerificationSkipped (cmd_command cmd)]"
          "verificationStatus s' = verificationStatus s"
          "app_phase s' = app_phase s"
      by blast
    note IH = Cons.IH[of "Suc i" s']
    have fa: "fixAttempts (app_trace s') = fixAttempts (app_trace s)"
      by (simp add: s'(3))
    have pr: "prefix (app_trace s) (app_trace s')"
      by (simp add: s'(3))
    have "prefix (app_trace s) (app_trace (fst (verificationPass directory timeout procs (Suc i) rest s')))"
      using pr IH by (meson prefix_order.trans)
    moreover have "\<forall>j<i. commandStatuses (fst (verificationPass directory timeout procs (Suc i) rest s')) ! j
              = commandStatuses s ! j"
      using IH by (simp add: s'(2))
    ultimately show ?thesis
      using IH by (simp add: s' fa)
  qed
qed

lemmas pass_phase = pass_invariants[THEN conjunct1]

lemmas pass_verificationStatus = pass_invariants[THEN conjunct2, THEN conjunct1]

lemmas pass_fixAttempts = pass_invariants[THEN conjunct2, THEN conjunct2, THEN conjunct1]

lemmas pass_statuses_length =
  pass_invariants[THEN conjunct2, THEN conjunct2, THEN conjunct2, THEN conjunct1]

lemmas pass_trace_prefix =
  pass_invariants[THEN conjunct2, THEN conjunct2, THEN conjunct2, THEN conjunct2, THEN conjunct1]

lemma pass_status_before:
  "j < i \<Longrightarrow> commandStatuses (fst (verificationPass directory timeout procs i rest s)) ! j
             = commandStatuses s ! j"
  using pass_invariants[of directory timeout procs i rest s] by blast

text \<open>
  A pass in closed form: the commands before the first that stops the loop each get a
  process and end passed or skipped; the loop ends at that command, or after the last.
\<close>

lemma pass_prefix_goes_on:
  assumes "k \<le> length rest"
    and "\<forall>m<k. \<not> stops directory timeout (rest ! m) (procs (i + m))"
  shows "\<exists>s'. verificationPass directory timeout procs i rest s
                = verificationPass directory timeout procs (i + k) (drop k rest) s'
           \<and> ranCommands (app_trace s') = ranCommands (app_trace s) @ take k rest
           \<and> length (commandStatuses s') = length (commandStatuses s)
           \<and> (\<forall>j. j < i \<or> i + k \<le> j \<longrightarrow> commandStatuses s' ! j = commandStatuses s ! j)
           \<and> (\<forall>m<k. i + m < length (commandStatuses s) \<longrightarrow>
                 commandStatuses s' ! (i + m) =
                   (if res_success (projr (runVerificationCommand (procs (i + m)) (rest ! m) directory timeout))
                    then CmdPassed else CmdSkipped))"
  using assms
proof (induction k arbitrary: i rest s)
  case 0
  show ?case
    by (rule exI[of _ s]) simp
next
  case (Suc k)
  from Suc.prems(1) obtain cmd rest' where rest: "rest = cmd # rest'"
    by (cases rest) auto
  from Suc.prems(2) have ns: "\<not> stops directory timeout cmd (procs i)"
    using rest by (metis add.right_neutral nth_Cons_0 zero_less_Suc)
  from pass_step_continues[where directory = directory and timeout = timeout and procs = procs and i = i and cmd = cmd and rest = rest' and s = s, OF ns] obtain s1 where
    s1: "verificationPass directory timeout procs i (cmd # rest') s
           = verificationPass directory timeout procs (Suc i) rest' s1"
        "commandStatuses s1 = (commandStatuses s)
           [i := if res_success (projr (runVerificationCommand (procs i) cmd directory timeout))
                 then CmdPassed else CmdSkipped]"
        "app_trace s1 = app_trace s @ [RunCommand cmd,
              if res_success (projr (runVerificationCommand (procs i) cmd directory timeout))
              then LogVerificationPassed (cmd_command cmd)
              else LogVerificationSkipped (cmd_command cmd)]"
    by blast
  have ran: "ranCommands (app_trace s1) = ranCommands (app_trace s) @ [cmd]"
    by (simp add: s1(3))
  have p1: "k \<le> length rest'"
    using Suc.prems(1) rest by simp
  have p2: "\<forall>m<k. \<not> stops directory timeout (rest' ! m) (procs (Suc i + m))"
    using Suc.prems(2) rest by (metis Suc_less_eq add_Suc_shift nth_Cons_Suc)
  from Suc.IH[OF p1 p2, of s1] obtain s' where
    s': "verificationPass directory timeout procs (Suc i) rest' s1
           = verificationPass directory timeout procs (Suc i + k) (drop k rest') s'"
        "ranCommands (app_trace s') = ranCommands (app_trace s1) @ take k rest'"
        "length (commandStatuses s') = length (commandStatuses s1)"
        "\<forall>j. j < Suc i \<or> Suc i + k \<le> j \<longrightarrow> commandStatuses s' ! j = commandStatuses s1 ! j"
        "\<forall>m<k. Suc i + m < length (commandStatuses s1) \<longrightarrow>
            commandStatuses s' ! (Suc i + m) =
              (if res_success (projr (runVerificationCommand (procs (Suc i + m)) (rest' ! m) directory timeout))
               then CmdPassed else CmdSkipped)"
    by blast
  have c1: "verificationPass directory timeout procs i rest s
              = verificationPass directory timeout procs (i + Suc k) (drop (Suc k) rest) s'"
    using s1(1) s'(1) rest by simp
  have c2: "ranCommands (app_trace s') = ranCommands (app_trace s) @ take (Suc k) rest"
    using s'(2) ran rest by simp
  have c3: "length (commandStatuses s') = length (commandStatuses s)"
    using s'(3) s1(2) by simp
  have c4: "\<forall>j. j < i \<or> i + Suc k \<le> j \<longrightarrow> commandStatuses s' ! j = commandStatuses s ! j"
    using s'(4) s1(2) by auto
  have c5: "\<forall>m<Suc k. i + m < length (commandStatuses s) \<longrightarrow>
                 commandStatuses s' ! (i + m) =
                   (if res_success (projr (runVerificationCommand (procs (i + m)) (rest ! m) directory timeout))
                    then CmdPassed else CmdSkipped)"
  proof (intro allI impI)
    fix m assume m: "m < Suc k" "i + m < length (commandStatuses s)"
    show "commandStatuses s' ! (i + m) =
            (if res_success (projr (runVerificationCommand (procs (i + m)) (rest ! m) directory timeout))
             then CmdPassed else CmdSkipped)"
    proof (cases m)
      case 0
      have "commandStatuses s' ! i = commandStatuses s1 ! i"
        using s'(4) by simp
      with 0 m show ?thesis
        by (simp add: s1(2) rest)
    next
      case (Suc m')
      with m have "m' < k" "Suc i + m' < length (commandStatuses s1)"
        by (simp_all add: s1(2))
      with s'(5) Suc show ?thesis
        by (simp add: rest)
    qed
  qed
  show ?case
    using c1 c2 c3 c4 c5 by blast
qed

lemma pass_first_block:
  assumes "k < length rest"
    and "blocks directory timeout (rest ! k) (procs (i + k))"
    and "\<forall>m<k. \<not> stops directory timeout (rest ! m) (procs (i + m))"
  shows "ranCommands (app_trace (fst (verificationPass directory timeout procs i rest s))) =
           ranCommands (app_trace s) @ take (Suc k) rest
         \<and> (\<forall>j>i + k. commandStatuses (fst (verificationPass directory timeout procs i rest s)) ! j
                = commandStatuses s ! j)
         \<and> (i + k < length (commandStatuses s) \<longrightarrow>
              commandStatuses (fst (verificationPass directory timeout procs i rest s)) ! (i + k) = CmdFailed)
         \<and> (\<forall>m<k. i + m < length (commandStatuses s) \<longrightarrow>
              commandStatuses (fst (verificationPass directory timeout procs i rest s)) ! (i + m) =
                (if res_success (projr (runVerificationCommand (procs (i + m)) (rest ! m) directory timeout))
                 then CmdPassed else CmdSkipped))
         \<and> snd (verificationPass directory timeout procs i rest s) =
             Inr \<lparr>allPassed = False,
                  failedCommand = Some ((rest ! k)
                    \<lparr>cmd_exitCode := Some (res_exitCode
                        (projr (runVerificationCommand (procs (i + k)) (rest ! k) directory timeout))),
                     cmd_output := Some (res_output
                        (projr (runVerificationCommand (procs (i + k)) (rest ! k) directory timeout)))\<rparr>),
                  failedOutput = res_output
                    (projr (runVerificationCommand (procs (i + k)) (rest ! k) directory timeout))\<rparr>"
proof -
  from assms(1) have le: "k \<le> length rest" by simp
  from pass_prefix_goes_on[OF le assms(3), of s] obtain s' where
    s': "verificationPass directory timeout procs i rest s
           = verificationPass directory timeout procs (i + k) (drop k rest) s'"
        "ranCommands (app_trace s') = ranCommands (app_trace s) @ take k rest"
        "length (commandStatuses s') = length (commandStatuses s)"
        "\<forall>j. j < i \<or> i + k \<le> j \<longrightarrow> commandStatuses s' ! j = commandStatuses s ! j"
        "\<forall>m<k. i + m < length (commandStatuses s) \<longrightarrow>
            commandStatuses s' ! (i + m) =
              (if res_success (projr (runVerificationCommand (procs (i + m)) (rest ! m) directory timeout))
               then CmdPassed else CmdSkipped)"
    by blast
  have d: "drop k rest = rest ! k # drop (Suc k) rest"
    using assms(1) by (simp add: Cons_nth_drop_Suc)
  note st = pass_step_blocks[where directory = directory and timeout = timeout and procs = procs
      and i = "i + k" and cmd = "rest ! k" and rest = "drop (Suc k) rest" and s = s', OF assms(2)]
  have t: "take k rest @ [rest ! k] = take (Suc k) rest"
    using assms(1) by (simp add: take_Suc_conv_app_nth)
  have c1: "ranCommands (app_trace (fst (verificationPass directory timeout procs i rest s))) =
           ranCommands (app_trace s) @ take (Suc k) rest"
    by (simp add: s'(1) d st(2) s'(2) t)
  have c2: "\<forall>j>i + k. commandStatuses (fst (verificationPass directory timeout procs i rest s)) ! j
                = commandStatuses s ! j"
    using s'(4) by (simp add: s'(1) d st(1))
  have c3: "i + k < length (commandStatuses s) \<longrightarrow>
              commandStatuses (fst (verificationPass directory timeout procs i rest s)) ! (i + k) = CmdFailed"
    using s'(3) by (simp add: s'(1) d st(1))
  have c4: "\<forall>m<k. i + m < length (commandStatuses s) \<longrightarrow>
              commandStatuses (fst (verificationPass directory timeout procs i rest s)) ! (i + m) =
                (if res_success (projr (runVerificationCommand (procs (i + m)) (rest ! m) directory timeout))
                 then CmdPassed else CmdSkipped)"
    using s'(5) by (simp add: s'(1) d st(1))
  show ?thesis
    using c1 c2 c3 c4 by (simp add: s'(1) d st(3))
qed

lemma pass_first_reject:
  assumes "k < length rest"
    and "rejects directory timeout (rest ! k) (procs (i + k))"
    and "\<forall>m<k. \<not> stops directory timeout (rest ! m) (procs (i + m))"
  shows "ranCommands (app_trace (fst (verificationPass directory timeout procs i rest s))) =
           ranCommands (app_trace s) @ take k rest
         \<and> (\<forall>j>i + k. commandStatuses (fst (verificationPass directory timeout procs i rest s)) ! j
                = commandStatuses s ! j)
         \<and> (i + k < length (commandStatuses s) \<longrightarrow>
              commandStatuses (fst (verificationPass directory timeout procs i rest s)) ! (i + k) = CmdRunning)
         \<and> (\<forall>m<k. i + m < length (commandStatuses s) \<longrightarrow>
              commandStatuses (fst (verificationPass directory timeout procs i rest s)) ! (i + m) =
                (if res_success (projr (runVerificationCommand (procs (i + m)) (rest ! m) directory timeout))
                 then CmdPassed else CmdSkipped))
         \<and> snd (verificationPass directory timeout procs i rest s) =
             Inl (projl (runVerificationCommand (procs (i + k)) (rest ! k) directory timeout))"
proof -
  from assms(1) have le: "k \<le> length rest" by simp
  from pass_prefix_goes_on[OF le assms(3), of s] obtain s' where
    s': "verificationPass directory timeout procs i rest s
           = verificationPass directory timeout procs (i + k) (drop k rest) s'"
        "ranCommands (app_trace s') = ranCommands (app_trace s) @ take k rest"
        "length (commandStatuses s') = length (commandStatuses s)"
        "\<forall>j. j < i \<or> i + k \<le> j \<longrightarrow> commandStatuses s' ! j = commandStatuses s ! j"
        "\<forall>m<k. i + m < length (commandStatuses s) \<longrightarrow>
            commandStatuses s' ! (i + m) =
              (if res_success (projr (runVerificationCommand (procs (i + m)) (rest ! m) directory timeout))
               then CmdPassed else CmdSkipped)"
    by blast
  have d: "drop k rest = rest ! k # drop (Suc k) rest"
    using assms(1) by (simp add: Cons_nth_drop_Suc)
  note st = pass_step_rejects[where directory = directory and timeout = timeout and procs = procs
      and i = "i + k" and cmd = "rest ! k" and rest = "drop (Suc k) rest" and s = s', OF assms(2)]
  have c1: "ranCommands (app_trace (fst (verificationPass directory timeout procs i rest s))) =
           ranCommands (app_trace s) @ take k rest"
    by (simp add: s'(1) d st(2) s'(2))
  have c2: "\<forall>j>i + k. commandStatuses (fst (verificationPass directory timeout procs i rest s)) ! j
                = commandStatuses s ! j"
    using s'(4) by (simp add: s'(1) d st(1))
  have c3: "i + k < length (commandStatuses s) \<longrightarrow>
              commandStatuses (fst (verificationPass directory timeout procs i rest s)) ! (i + k) = CmdRunning"
    using s'(3) by (simp add: s'(1) d st(1))
  have c4: "\<forall>m<k. i + m < length (commandStatuses s) \<longrightarrow>
              commandStatuses (fst (verificationPass directory timeout procs i rest s)) ! (i + m) =
                (if res_success (projr (runVerificationCommand (procs (i + m)) (rest ! m) directory timeout))
                 then CmdPassed else CmdSkipped)"
    using s'(5) by (simp add: s'(1) d st(1))
  show ?thesis
    using c1 c2 c3 c4 by (simp add: s'(1) d st(3))
qed

lemma pass_no_stop:
  assumes "\<forall>m<length rest. \<not> stops directory timeout (rest ! m) (procs (i + m))"
  shows "ranCommands (app_trace (fst (verificationPass directory timeout procs i rest s)))
           = ranCommands (app_trace s) @ rest
         \<and> (\<forall>j\<ge>i + length rest. commandStatuses (fst (verificationPass directory timeout procs i rest s)) ! j
                = commandStatuses s ! j)
         \<and> (\<forall>m<length rest. i + m < length (commandStatuses s) \<longrightarrow>
              commandStatuses (fst (verificationPass directory timeout procs i rest s)) ! (i + m) =
                (if res_success (projr (runVerificationCommand (procs (i + m)) (rest ! m) directory timeout))
                 then CmdPassed else CmdSkipped))
         \<and> snd (verificationPass directory timeout procs i rest s) =
             Inr \<lparr>allPassed = True, failedCommand = None, failedOutput = []\<rparr>"
proof -
  from pass_prefix_goes_on[OF order_refl assms, of s] obtain s' where
    s': "verificationPass directory timeout procs i rest s
           = verificationPass directory timeout procs (i + length rest) (drop (length rest) rest) s'"
        "ranCommands (app_trace s') = ranCommands (app_trace s) @ take (length rest) rest"
        "length (commandStatuses s') = length (commandStatuses s)"
        "\<forall>j. j < i \<or> i + length rest \<le> j \<longrightarrow> commandStatuses s' ! j = commandStatuses s ! j"
        "\<forall>m<length rest. i + m < length (commandStatuses s) \<longrightarrow>
            commandStatuses s' ! (i + m) =
              (if res_success (projr (runVerificationCommand (procs (i + m)) (rest ! m) directory timeout))
               then CmdPassed else CmdSkipped)"
    by blast
  show ?thesis
    using s'(2,4,5) by (simp add: s'(1))
qed

lemma first_stop_exists:
  "\<exists>k<n::nat. P k \<Longrightarrow> \<exists>k<n. P k \<and> (\<forall>m<k. \<not> P m)"
proof -
  assume "\<exists>k<n. P k"
  then have "\<exists>k. k < n \<and> P k" by blast
  then obtain k where k: "k < n \<and> P k" "\<forall>m<k. \<not> (m < n \<and> P m)"
    using exists_least_iff[of "\<lambda>k. k < n \<and> P k"] by blast
  then have "\<forall>m<k. \<not> P m" by auto
  with k show ?thesis by blast
qed

lemma take_prefix_mono: "m \<le> n \<Longrightarrow> prefix (take m xs) (take n xs)"
  by (metis min.absorb1 take_is_prefix take_take)

text \<open>The three ways a pass ends, for the pass of \<open>executeVerification\<close>.\<close>

lemma pass_end_cases:
  obtains (Succeeds) "passSucceeds directory timeout procs commands"
  | (Fails) k where "passFailsAt directory timeout procs commands k"
  | (Rejects) k where "passRejectsAt directory timeout procs commands k"
proof (cases "\<exists>k<length commands. stops directory timeout (commands ! k) (procs k)")
  case False
  then have "passSucceeds directory timeout procs commands"
    by (simp add: passSucceeds_def list_all_iff)
  then show ?thesis by (rule Succeeds)
next
  case True
  from first_stop_exists[OF True] obtain k where
    k: "k < length commands" "stops directory timeout (commands ! k) (procs k)"
       "\<forall>m<k. \<not> stops directory timeout (commands ! m) (procs m)"
    by blast
  show ?thesis
  proof (cases "blocks directory timeout (commands ! k) (procs k)")
    case True
    with k have "passFailsAt directory timeout procs commands k"
      by (simp add: passFailsAt_def list_all_iff)
    then show ?thesis by (rule Fails)
  next
    case False
    with k have "passRejectsAt directory timeout procs commands k"
      by (simp add: passRejectsAt_def list_all_iff stops_def)
    then show ?thesis by (rule Rejects)
  qed
qed

lemma pass_ends_exclusive:
  "passFailsAt directory timeout procs commands k \<Longrightarrow>
     \<not> passSucceeds directory timeout procs commands
     \<and> (\<forall>j. \<not> passRejectsAt directory timeout procs commands j)
     \<and> (\<forall>j. passFailsAt directory timeout procs commands j \<longrightarrow> j = k)"
  "passRejectsAt directory timeout procs commands k \<Longrightarrow>
     \<not> passSucceeds directory timeout procs commands
     \<and> (\<forall>j. \<not> passFailsAt directory timeout procs commands j)
     \<and> (\<forall>j. passRejectsAt directory timeout procs commands j \<longrightarrow> j = k)"
proof -
  have bs: "blocks directory timeout c p \<Longrightarrow> stops directory timeout c p" for c p
    by (simp add: stops_def)
  have rs: "rejects directory timeout c p \<Longrightarrow> stops directory timeout c p" for c p
    by (simp add: stops_def)
  have br: "blocks directory timeout c p \<Longrightarrow> \<not> rejects directory timeout c p" for c p
    by (cases "runVerificationCommand p c directory timeout") (simp_all add: blocks_def rejects_def)
  {
    assume f: "passFailsAt directory timeout procs commands k"
    then have k: "k < length commands" "blocks directory timeout (commands ! k) (procs k)"
      "\<forall>m<k. \<not> stops directory timeout (commands ! m) (procs m)"
      by (simp_all add: passFailsAt_def list_all_iff)
    have a: "\<not> passSucceeds directory timeout procs commands"
      using k(1) bs[OF k(2)] by (auto simp: passSucceeds_def list_all_iff)
    have b: "\<not> passRejectsAt directory timeout procs commands j" for j
    proof
      assume "passRejectsAt directory timeout procs commands j"
      then have j: "rejects directory timeout (commands ! j) (procs j)"
        "\<forall>m<j. \<not> stops directory timeout (commands ! m) (procs m)"
        by (simp_all add: passRejectsAt_def list_all_iff)
      consider "j < k" | "j = k" | "k < j" by linarith
      then show False
      proof cases
        case 1 with k(3) rs[OF j(1)] show False by blast
      next
        case 2 with j(1) br[OF k(2)] show False by simp
      next
        case 3 with j(2) bs[OF k(2)] show False by blast
      qed
    qed
    have c: "passFailsAt directory timeout procs commands j \<longrightarrow> j = k" for j
    proof
      assume "passFailsAt directory timeout procs commands j"
      then have j: "blocks directory timeout (commands ! j) (procs j)"
        "\<forall>m<j. \<not> stops directory timeout (commands ! m) (procs m)"
        by (simp_all add: passFailsAt_def list_all_iff)
      show "j = k"
        using k(3) bs[OF j(1)] j(2) bs[OF k(2)] by (meson linorder_neqE_nat)
    qed
    show "\<not> passSucceeds directory timeout procs commands
     \<and> (\<forall>j. \<not> passRejectsAt directory timeout procs commands j)
     \<and> (\<forall>j. passFailsAt directory timeout procs commands j \<longrightarrow> j = k)"
      using a b c by blast
  }
  {
    assume f: "passRejectsAt directory timeout procs commands k"
    then have k: "k < length commands" "rejects directory timeout (commands ! k) (procs k)"
      "\<forall>m<k. \<not> stops directory timeout (commands ! m) (procs m)"
      by (simp_all add: passRejectsAt_def list_all_iff)
    have a: "\<not> passSucceeds directory timeout procs commands"
      using k(1) rs[OF k(2)] by (auto simp: passSucceeds_def list_all_iff)
    have b: "\<not> passFailsAt directory timeout procs commands j" for j
    proof
      assume "passFailsAt directory timeout procs commands j"
      then have j: "blocks directory timeout (commands ! j) (procs j)"
        "\<forall>m<j. \<not> stops directory timeout (commands ! m) (procs m)"
        by (simp_all add: passFailsAt_def list_all_iff)
      consider "j < k" | "j = k" | "k < j" by linarith
      then show False
      proof cases
        case 1 with k(3) bs[OF j(1)] show False by blast
      next
        case 2 with k(2) br[OF j(1)] show False by simp
      next
        case 3 with j(2) rs[OF k(2)] show False by blast
      qed
    qed
    have c: "passRejectsAt directory timeout procs commands j \<longrightarrow> j = k" for j
    proof
      assume "passRejectsAt directory timeout procs commands j"
      then have j: "rejects directory timeout (commands ! j) (procs j)"
        "\<forall>m<j. \<not> stops directory timeout (commands ! m) (procs m)"
        by (simp_all add: passRejectsAt_def list_all_iff)
      show "j = k"
        using k(3) rs[OF j(1)] j(2) rs[OF k(2)] by (meson linorder_neqE_nat)
    qed
    show "\<not> passSucceeds directory timeout procs commands
     \<and> (\<forall>j. \<not> passFailsAt directory timeout procs commands j)
     \<and> (\<forall>j. passRejectsAt directory timeout procs commands j \<longrightarrow> j = k)"
      using a b c by blast
  }
qed

section \<open>Lemmas about the fix-retry loop\<close>

lemma trace_runReview [simp]: "app_trace (runReview s) = app_trace s @ [RunReview]"
  by (simp add: runReview_def effect_def)

lemma commandStatuses_set_status [simp]:
  "commandStatuses (setVerificationState (\<lambda>prev. prev\<lparr>vs_status := x\<rparr>) s) = commandStatuses s"
  by (cases "app_verificationState s") (simp_all add: commandStatuses_def setVerificationState_def)

lemma commandStatuses_runReview [simp]: "commandStatuses (runReview s) = commandStatuses s"
  by (simp add: runReview_def commandStatuses_def effect_def)

lemma verificationStatus_runReview [simp]: "verificationStatus (runReview s) = verificationStatus s"
  by (simp add: runReview_def verificationStatus_def effect_def)

lemma phase_runReview [simp]: "app_phase (runReview s) = Reviewing"
  by (simp add: runReview_def)

lemma trace_catchFixError [simp]:
  "app_trace (catchFixError message s) = app_trace s @ [LogFixAttemptFailed message]"
  by (simp add: catchFixError_def)

lemma verificationStatus_catchFixError [simp]:
  "verificationStatus (catchFixError message s) = map_option (\<lambda>_. VsFailed) (verificationStatus s)"
  by (simp add: catchFixError_def)

lemma commandStatuses_catchFixError [simp]:
  "commandStatuses (catchFixError message s) = commandStatuses s"
  by (simp add: catchFixError_def)

lemma verificationStatus_Some:
  "app_verificationState s \<noteq> None \<Longrightarrow> map_option (\<lambda>_. x) (verificationStatus s) = Some x"
  by (cases "app_verificationState s") (simp_all add: verificationStatus_def)

lemma state_defined_iff: "app_verificationState s \<noteq> None \<longleftrightarrow> verificationStatus s \<noteq> None"
  by (simp add: verificationStatus_def)

text \<open>The ends of a pass, for the pass from index 0.\<close>

lemma pass_succeeds:
  assumes "passSucceeds directory timeout procs commands"
  shows "snd (verificationPass directory timeout procs 0 commands s)
           = Inr \<lparr>allPassed = True, failedCommand = None, failedOutput = []\<rparr>"
    and "ranCommands (app_trace (fst (verificationPass directory timeout procs 0 commands s)))
           = ranCommands (app_trace s) @ commands"
    and "\<forall>m<length commands. m < length (commandStatuses s) \<longrightarrow>
           commandStatuses (fst (verificationPass directory timeout procs 0 commands s)) ! m =
             (if res_success (resultAt directory timeout procs commands m) then CmdPassed else CmdSkipped)"
proof -
  from assms have ns: "\<forall>m<length commands. \<not> stops directory timeout (commands ! m) (procs (0 + m))"
    by (simp add: passSucceeds_def list_all_iff)
  note p = pass_no_stop[OF ns, of s]
  show "snd (verificationPass directory timeout procs 0 commands s)
           = Inr \<lparr>allPassed = True, failedCommand = None, failedOutput = []\<rparr>"
    using p by simp
  show "ranCommands (app_trace (fst (verificationPass directory timeout procs 0 commands s)))
           = ranCommands (app_trace s) @ commands"
    using p by simp
  show "\<forall>m<length commands. m < length (commandStatuses s) \<longrightarrow>
           commandStatuses (fst (verificationPass directory timeout procs 0 commands s)) ! m =
             (if res_success (resultAt directory timeout procs commands m) then CmdPassed else CmdSkipped)"
    using p by (simp add: resultAt_def)
qed

lemma pass_fails:
  assumes "passFailsAt directory timeout procs commands k"
  shows "snd (verificationPass directory timeout procs 0 commands s)
           = Inr \<lparr>allPassed = False,
                  failedCommand = Some (failedAt directory timeout procs commands k),
                  failedOutput = res_output (resultAt directory timeout procs commands k)\<rparr>"
    and "ranCommands (app_trace (fst (verificationPass directory timeout procs 0 commands s)))
           = ranCommands (app_trace s) @ take (Suc k) commands"
    and "\<forall>j>k. commandStatuses (fst (verificationPass directory timeout procs 0 commands s)) ! j
                = commandStatuses s ! j"
    and "k < length (commandStatuses s) \<longrightarrow>
           commandStatuses (fst (verificationPass directory timeout procs 0 commands s)) ! k = CmdFailed"
    and "\<forall>m<k. m < length (commandStatuses s) \<longrightarrow>
           commandStatuses (fst (verificationPass directory timeout procs 0 commands s)) ! m =
             (if res_success (resultAt directory timeout procs commands m) then CmdPassed else CmdSkipped)"
proof -
  from assms have k: "k < length commands"
    "blocks directory timeout (commands ! k) (procs (0 + k))"
    "\<forall>m<k. \<not> stops directory timeout (commands ! m) (procs (0 + m))"
    by (simp_all add: passFailsAt_def list_all_iff)
  note p = pass_first_block[OF k, of s]
  show "snd (verificationPass directory timeout procs 0 commands s)
           = Inr \<lparr>allPassed = False,
                  failedCommand = Some (failedAt directory timeout procs commands k),
                  failedOutput = res_output (resultAt directory timeout procs commands k)\<rparr>"
    using p by (simp add: resultAt_def failedAt_def)
  show "ranCommands (app_trace (fst (verificationPass directory timeout procs 0 commands s)))
           = ranCommands (app_trace s) @ take (Suc k) commands"
    using p by simp
  show "\<forall>j>k. commandStatuses (fst (verificationPass directory timeout procs 0 commands s)) ! j
                = commandStatuses s ! j"
    using p by simp
  show "k < length (commandStatuses s) \<longrightarrow>
           commandStatuses (fst (verificationPass directory timeout procs 0 commands s)) ! k = CmdFailed"
    using p by simp
  show "\<forall>m<k. m < length (commandStatuses s) \<longrightarrow>
           commandStatuses (fst (verificationPass directory timeout procs 0 commands s)) ! m =
             (if res_success (resultAt directory timeout procs commands m) then CmdPassed else CmdSkipped)"
    using p by (simp add: resultAt_def)
qed

lemma pass_rejects:
  assumes "passRejectsAt directory timeout procs commands k"
  shows "snd (verificationPass directory timeout procs 0 commands s)
           = Inl (projl (runVerificationCommand (procs k) (commands ! k) directory timeout))"
    and "ranCommands (app_trace (fst (verificationPass directory timeout procs 0 commands s)))
           = ranCommands (app_trace s) @ take k commands"
    and "\<forall>j>k. commandStatuses (fst (verificationPass directory timeout procs 0 commands s)) ! j
                = commandStatuses s ! j"
    and "k < length (commandStatuses s) \<longrightarrow>
           commandStatuses (fst (verificationPass directory timeout procs 0 commands s)) ! k = CmdRunning"
    and "\<forall>m<k. m < length (commandStatuses s) \<longrightarrow>
           commandStatuses (fst (verificationPass directory timeout procs 0 commands s)) ! m =
             (if res_success (resultAt directory timeout procs commands m) then CmdPassed else CmdSkipped)"
proof -
  from assms have k: "k < length commands"
    "rejects directory timeout (commands ! k) (procs (0 + k))"
    "\<forall>m<k. \<not> stops directory timeout (commands ! m) (procs (0 + m))"
    by (simp_all add: passRejectsAt_def list_all_iff)
  note p = pass_first_reject[OF k, of s]
  show "snd (verificationPass directory timeout procs 0 commands s)
           = Inl (projl (runVerificationCommand (procs k) (commands ! k) directory timeout))"
    using p by simp
  show "ranCommands (app_trace (fst (verificationPass directory timeout procs 0 commands s)))
           = ranCommands (app_trace s) @ take k commands"
    using p by simp
  show "\<forall>j>k. commandStatuses (fst (verificationPass directory timeout procs 0 commands s)) ! j
                = commandStatuses s ! j"
    using p by simp
  show "k < length (commandStatuses s) \<longrightarrow>
           commandStatuses (fst (verificationPass directory timeout procs 0 commands s)) ! k = CmdRunning"
    using p by simp
  show "\<forall>m<k. m < length (commandStatuses s) \<longrightarrow>
           commandStatuses (fst (verificationPass directory timeout procs 0 commands s)) ! m =
             (if res_success (resultAt directory timeout procs commands m) then CmdPassed else CmdSkipped)"
    using p by (simp add: resultAt_def)
qed

text \<open>The branches of \<open>executeVerification\<close>, by the end of its pass.\<close>

lemma exec_succeeds:
  assumes "passSucceeds directory timeout (world_proc world attempt) commands"
  shows "executeVerification world directory timeout maxRetries commands attempt s =
           (runReview (setVerificationState (\<lambda>prev. prev\<lparr>vs_status := VsPassed\<rparr>)
              (effect LogAllPassed
                 (fst (verificationPass directory timeout (world_proc world attempt) 0 commands s)))),
            None)"
  by (subst executeVerification.simps) (simp add: Let_def pass_succeeds(1)[OF assms])

lemma exec_rejects:
  assumes "passRejectsAt directory timeout (world_proc world attempt) commands k"
  shows "executeVerification world directory timeout maxRetries commands attempt s =
           (fst (verificationPass directory timeout (world_proc world attempt) 0 commands s),
            Some (projl (runVerificationCommand (world_proc world attempt k) (commands ! k)
                           directory timeout)))"
  by (subst executeVerification.simps) (simp add: Let_def pass_rejects(1)[OF assms])

lemma exec_exhausted:
  assumes "passFailsAt directory timeout (world_proc world attempt) commands k"
    and "maxRetries \<le> attempt"
  shows "executeVerification world directory timeout maxRetries commands attempt s =
           (setVerificationState (\<lambda>prev. prev\<lparr>vs_status := VsFailed\<rparr>)
              (effect (LogFailedAfter attempt)
                 (fst (verificationPass directory timeout (world_proc world attempt) 0 commands s))),
            None)"
  using assms(2)
  by (subst executeVerification.simps) (simp add: Let_def pass_fails(1)[OF assms(1)])

lemma exec_fix_throws:
  assumes "passFailsAt directory timeout (world_proc world attempt) commands k"
    and "attempt < maxRetries"
    and "world_fix world attempt = Some message"
  shows "executeVerification world directory timeout maxRetries commands attempt s =
           (catchFixError message
              (effect (SubmitFix (failedAt directory timeout (world_proc world attempt) commands k)
                         (res_output (resultAt directory timeout (world_proc world attempt) commands k))
                         attempt)
                (effect (LogAttemptingFix (cmd_command (commands ! k)))
                  (setVerificationState (\<lambda>prev. prev\<lparr>vs_status := VsFixing\<rparr>)
                     (fst (verificationPass directory timeout (world_proc world attempt) 0 commands s))))),
            None)"
  using assms(2,3)
  by (subst executeVerification.simps) (simp add: Let_def pass_fails(1)[OF assms(1)] failedAt_def)

lemma exec_retry:
  assumes "passFailsAt directory timeout (world_proc world attempt) commands k"
    and "attempt < maxRetries"
    and "world_fix world attempt = None"
  shows "executeVerification world directory timeout maxRetries commands attempt s =
           (case snd (executeVerification world directory timeout maxRetries
                        (map (\<lambda>c. c\<lparr>cmd_status := CmdPending\<rparr>) commands) (attempt + 1)
                        (setVerificationState (\<lambda>prev. prev
                             \<lparr>vs_commands := map (\<lambda>c. c\<lparr>cmd_status := CmdPending\<rparr>) commands,
                              vs_attempt := attempt + 1,
                              vs_status := VsRunning\<rparr>)
                          (effect (SubmitFix (failedAt directory timeout (world_proc world attempt) commands k)
                                     (res_output (resultAt directory timeout (world_proc world attempt) commands k))
                                     attempt)
                            (effect (LogAttemptingFix (cmd_command (commands ! k)))
                              (setVerificationState (\<lambda>prev. prev\<lparr>vs_status := VsFixing\<rparr>)
                                 (fst (verificationPass directory timeout (world_proc world attempt) 0
                                         commands s))))))) of
              None \<Rightarrow>
                (fst (executeVerification world directory timeout maxRetries
                        (map (\<lambda>c. c\<lparr>cmd_status := CmdPending\<rparr>) commands) (attempt + 1)
                        (setVerificationState (\<lambda>prev. prev
                             \<lparr>vs_commands := map (\<lambda>c. c\<lparr>cmd_status := CmdPending\<rparr>) commands,
                              vs_attempt := attempt + 1,
                              vs_status := VsRunning\<rparr>)
                          (effect (SubmitFix (failedAt directory timeout (world_proc world attempt) commands k)
                                     (res_output (resultAt directory timeout (world_proc world attempt) commands k))
                                     attempt)
                            (effect (LogAttemptingFix (cmd_command (commands ! k)))
                              (setVerificationState (\<lambda>prev. prev\<lparr>vs_status := VsFixing\<rparr>)
                                 (fst (verificationPass directory timeout (world_proc world attempt) 0
                                         commands s))))))), None)
            | Some message \<Rightarrow>
                (catchFixError message
                   (fst (executeVerification world directory timeout maxRetries
                        (map (\<lambda>c. c\<lparr>cmd_status := CmdPending\<rparr>) commands) (attempt + 1)
                        (setVerificationState (\<lambda>prev. prev
                             \<lparr>vs_commands := map (\<lambda>c. c\<lparr>cmd_status := CmdPending\<rparr>) commands,
                              vs_attempt := attempt + 1,
                              vs_status := VsRunning\<rparr>)
                          (effect (SubmitFix (failedAt directory timeout (world_proc world attempt) commands k)
                                     (res_output (resultAt directory timeout (world_proc world attempt) commands k))
                                     attempt)
                            (effect (LogAttemptingFix (cmd_command (commands ! k)))
                              (setVerificationState (\<lambda>prev. prev\<lparr>vs_status := VsFixing\<rparr>)
                                 (fst (verificationPass directory timeout (world_proc world attempt) 0
                                         commands s)))))))), None))"
  using assms(2,3)
  by (subst executeVerification.simps)
     (simp add: Let_def pass_fails(1)[OF assms(1)] failedAt_def cong: option.case_cong)

text \<open>Resetting the statuses changes no outcome.\<close>

lemma reset_outcome:
  "blocks directory timeout (c\<lparr>cmd_status := x\<rparr>) p = blocks directory timeout c p"
  "rejects directory timeout (c\<lparr>cmd_status := x\<rparr>) p = rejects directory timeout c p"
  "stops directory timeout (c\<lparr>cmd_status := x\<rparr>) p = stops directory timeout c p"
  by (auto simp: stops_def blocks_def rejects_def runVerificationCommand_def
           split: SpawnOutcome.splits ProcEvent.splits)

lemma reset_pass_ends:
  "passFailsAt directory timeout procs (map (\<lambda>c. c\<lparr>cmd_status := x\<rparr>) commands) k
     = passFailsAt directory timeout procs commands k"
  "passRejectsAt directory timeout procs (map (\<lambda>c. c\<lparr>cmd_status := x\<rparr>) commands) k
     = passRejectsAt directory timeout procs commands k"
  "passSucceeds directory timeout procs (map (\<lambda>c. c\<lparr>cmd_status := x\<rparr>) commands)
     = passSucceeds directory timeout procs commands"
  by (auto simp: passFailsAt_def passRejectsAt_def passSucceeds_def list_all_iff reset_outcome)

lemma reset_retriedUpTo:
  "retriedUpTo world directory timeout maxRetries (map (\<lambda>c. c\<lparr>cmd_status := x\<rparr>) commands) attempt a
     = retriedUpTo world directory timeout maxRetries commands attempt a"
  by (simp add: retriedUpTo_def reset_pass_ends list_ex_iff)

lemma reset_twice:
  "map (\<lambda>c. c\<lparr>cmd_status := x\<rparr>) (map (\<lambda>c. c\<lparr>cmd_status := x\<rparr>) commands)
     = map (\<lambda>c. c\<lparr>cmd_status := x\<rparr>) commands"
  by simp

text \<open>The commands a pass starts a process for.\<close>

lemma find_first_upt:
  assumes "k < n" and "P k" and "\<forall>m<k. \<not> P m"
  shows "find P [0..<n] = Some k"
proof -
  have "\<exists>i<length [0..<n]. P ([0..<n] ! i) \<and> k = [0..<n] ! i \<and> (\<forall>j<i. \<not> P ([0..<n] ! j))"
    using assms by (intro exI[of _ k]) simp
  then show ?thesis
    by (simp only: find_Some_iff)
qed

lemma started_cases:
  "passSucceeds directory timeout procs commands \<Longrightarrow> started directory timeout procs commands = commands"
  "passFailsAt directory timeout procs commands k \<Longrightarrow>
     started directory timeout procs commands = take (Suc k) commands"
  "passRejectsAt directory timeout procs commands k \<Longrightarrow>
     started directory timeout procs commands = take k commands"
proof -
  assume "passSucceeds directory timeout procs commands"
  then have "find (\<lambda>m. stops directory timeout (commands ! m) (procs m)) [0..<length commands] = None"
    by (simp add: passSucceeds_def list_all_iff find_None_iff)
  then show "started directory timeout procs commands = commands"
    by (simp add: started_def)
next
  assume "passFailsAt directory timeout procs commands k"
  then have k: "k < length commands" "blocks directory timeout (commands ! k) (procs k)"
    "\<forall>m<k. \<not> stops directory timeout (commands ! m) (procs m)"
    by (simp_all add: passFailsAt_def list_all_iff)
  have "find (\<lambda>m. stops directory timeout (commands ! m) (procs m)) [0..<length commands] = Some k"
    using k by (intro find_first_upt) (simp_all add: stops_def)
  then show "started directory timeout procs commands = take (Suc k) commands"
    using k(2) by (simp add: started_def)
next
  assume "passRejectsAt directory timeout procs commands k"
  then have k: "k < length commands" "rejects directory timeout (commands ! k) (procs k)"
    "\<forall>m<k. \<not> stops directory timeout (commands ! m) (procs m)"
    by (simp_all add: passRejectsAt_def list_all_iff)
  have nb: "\<not> blocks directory timeout (commands ! k) (procs k)"
    using k(2) by (cases "runVerificationCommand (procs k) (commands ! k) directory timeout")
      (simp_all add: blocks_def rejects_def)
  have "find (\<lambda>m. stops directory timeout (commands ! m) (procs m)) [0..<length commands] = Some k"
    using k by (intro find_first_upt) (simp_all add: stops_def)
  then show "started directory timeout procs commands = take k commands"
    using nb by (simp add: started_def)
qed

lemma pass_started:
  "ranCommands (app_trace (fst (verificationPass directory timeout procs 0 commands s)))
     = ranCommands (app_trace s) @ started directory timeout procs commands"
proof (cases rule: pass_end_cases[of directory timeout procs commands])
  case Succeeds
  then show ?thesis
    by (simp add: pass_succeeds(2) started_cases(1))
next
  case (Fails k)
  then show ?thesis
    by (simp add: pass_fails(2) started_cases(2))
next
  case (Rejects k)
  then show ?thesis
    by (simp add: pass_rejects(2) started_cases(3))
qed

lemma caught_simps [simp]:
  "caught (s, None) = (s, None)"
  "caught (s, Some message) = (catchFixError message s, None)"
  by (simp_all add: caught_def)

lemma caught_caught [simp]: "caught (caught r) = caught r"
  by (cases r; cases "snd r") (auto simp: caught_def)

lemma state_defined_setVerificationState [simp]:
  "app_verificationState (setVerificationState f s) = None \<longleftrightarrow> app_verificationState s = None"
  by (simp add: setVerificationState_def)

lemma state_defined_effect [simp]:
  "app_verificationState (effect e s) = app_verificationState s"
  by (simp add: effect_def)

lemma pass_state_defined:
  "app_verificationState (fst (verificationPass directory timeout procs i rest s)) = None
     \<longleftrightarrow> app_verificationState s = None"
  using pass_verificationStatus[of directory timeout procs i rest s]
  by (cases "app_verificationState s";
      cases "app_verificationState (fst (verificationPass directory timeout procs i rest s))")
     (simp_all add: verificationStatus_def)

lemma caught_observations:
  "snd (caught r) = None"
  "fixAttempts (app_trace (fst (caught r))) = fixAttempts (app_trace (fst r))"
  "ranCommands (app_trace (fst (caught r))) = ranCommands (app_trace (fst r))"
  "app_phase (fst (caught r)) = app_phase (fst r)"
  "commandStatuses (fst (caught r)) = commandStatuses (fst r)"
  "verificationStatus (fst (caught r)) =
     (case snd r of None \<Rightarrow> verificationStatus (fst r)
      | Some message \<Rightarrow> map_option (\<lambda>_. VsFailed) (verificationStatus (fst r)))"
  by (cases r; cases "snd r"; simp add: catchFixError_def)+

text \<open>The last pass of a run, by its end.\<close>

lemma exec_end_succeeds:
  assumes "passSucceeds directory timeout (world_proc world a) commands"
  shows "snd (executeVerification world directory timeout maxRetries commands a s) = None"
    and "fixAttempts (app_trace (fst (executeVerification world directory timeout maxRetries commands a s)))
           = fixAttempts (app_trace s)"
    and "ranCommands (app_trace (fst (executeVerification world directory timeout maxRetries commands a s)))
           = ranCommands (app_trace s) @ started directory timeout (world_proc world a) commands"
    and "verificationStatus (fst (executeVerification world directory timeout maxRetries commands a s))
           = map_option (\<lambda>_. VsPassed) (verificationStatus s)"
    and "app_phase (fst (executeVerification world directory timeout maxRetries commands a s)) = Reviewing"
  by (simp_all add: exec_succeeds[OF assms] pass_fixAttempts pass_started pass_verificationStatus)

lemma exec_end_exhausted:
  assumes "passFailsAt directory timeout (world_proc world a) commands k"
    and "maxRetries \<le> a"
  shows "snd (executeVerification world directory timeout maxRetries commands a s) = None"
    and "fixAttempts (app_trace (fst (executeVerification world directory timeout maxRetries commands a s)))
           = fixAttempts (app_trace s)"
    and "ranCommands (app_trace (fst (executeVerification world directory timeout maxRetries commands a s)))
           = ranCommands (app_trace s) @ started directory timeout (world_proc world a) commands"
    and "verificationStatus (fst (executeVerification world directory timeout maxRetries commands a s))
           = map_option (\<lambda>_. VsFailed) (verificationStatus s)"
  by (simp_all add: exec_exhausted[OF assms] pass_fixAttempts pass_started pass_verificationStatus)

lemma exec_end_fix_throws:
  assumes "passFailsAt directory timeout (world_proc world a) commands k"
    and "a < maxRetries"
    and "world_fix world a = Some message"
  shows "snd (executeVerification world directory timeout maxRetries commands a s) = None"
    and "fixAttempts (app_trace (fst (executeVerification world directory timeout maxRetries commands a s)))
           = fixAttempts (app_trace s) @ [a]"
    and "ranCommands (app_trace (fst (executeVerification world directory timeout maxRetries commands a s)))
           = ranCommands (app_trace s) @ started directory timeout (world_proc world a) commands"
    and "verificationStatus (fst (executeVerification world directory timeout maxRetries commands a s))
           = map_option (\<lambda>_. VsFailed) (verificationStatus s)"
  by (simp_all add: exec_fix_throws[OF assms] pass_fixAttempts pass_started pass_verificationStatus
      option.map_comp comp_def)

lemma exec_end_rejects:
  assumes "passRejectsAt directory timeout (world_proc world a) commands k"
  shows "snd (executeVerification world directory timeout maxRetries commands a s)
           = Some (projl (runVerificationCommand (world_proc world a k) (commands ! k) directory timeout))"
    and "fixAttempts (app_trace (fst (executeVerification world directory timeout maxRetries commands a s)))
           = fixAttempts (app_trace s)"
    and "ranCommands (app_trace (fst (executeVerification world directory timeout maxRetries commands a s)))
           = ranCommands (app_trace s) @ started directory timeout (world_proc world a) commands"
    and "verificationStatus (fst (executeVerification world directory timeout maxRetries commands a s))
           = verificationStatus s"
  by (simp_all add: exec_rejects[OF assms] pass_fixAttempts pass_started pass_verificationStatus)

lemma retriedUpTo_step:
  assumes "attempt < a"
  shows "retriedUpTo world directory timeout maxRetries commands attempt a \<longleftrightarrow>
           attempt < maxRetries
           \<and> (\<exists>k. passFailsAt directory timeout (world_proc world attempt) commands k)
           \<and> world_fix world attempt = None
           \<and> retriedUpTo world directory timeout maxRetries commands (attempt + 1) a"
proof -
  have u: "[attempt..a - 1] = attempt # [attempt + 1..a - 1]"
    using assms by (simp add: upto_rec1)
  have e: "list_ex (passFailsAt directory timeout (world_proc world attempt) commands) [0..<length commands]
             \<longleftrightarrow> (\<exists>k. passFailsAt directory timeout (world_proc world attempt) commands k)"
    by (auto simp: list_ex_iff passFailsAt_def)
  show ?thesis
    by (simp add: retriedUpTo_def u e)
qed

lemma retriedUpTo_refl: "retriedUpTo world directory timeout maxRetries commands attempt attempt"
  by (simp add: retriedUpTo_def)

lemma exec_chain:
  assumes "attempt \<le> a"
    and "retriedUpTo world directory timeout maxRetries commands attempt a"
  shows "\<exists>sa. executeVerification world directory timeout maxRetries commands attempt s =
               (if attempt < a
                then caught (executeVerification world directory timeout maxRetries
                               (map (\<lambda>c. c\<lparr>cmd_status := CmdPending\<rparr>) commands) a sa)
                else executeVerification world directory timeout maxRetries commands a sa)
           \<and> fixAttempts (app_trace sa) = fixAttempts (app_trace s) @ [attempt..a - 1]
           \<and> ranCommands (app_trace sa) = ranCommands (app_trace s) @
               concat (map (\<lambda>b. started directory timeout (world_proc world b)
                                   (attemptCommands commands attempt b)) [attempt..a - 1])
           \<and> (app_verificationState sa = None \<longleftrightarrow> app_verificationState s = None)
           \<and> (attempt < a \<longrightarrow> verificationStatus sa = map_option (\<lambda>_. VsRunning) (verificationStatus s))
           \<and> (attempt = a \<longrightarrow> sa = s)"
  using assms
proof (induction "nat (a - attempt)" arbitrary: attempt s commands)
  case 0
  then have "a = attempt" by simp
  then show ?case
    by (intro exI[of _ s]) simp
next
  case (Suc n)
  let ?fresh = "map (\<lambda>c. c\<lparr>cmd_status := CmdPending\<rparr>) commands"
  from Suc.hyps(2) have lt: "attempt < a" and n: "n = nat (a - (attempt + 1))" by simp_all
  from Suc.prems(2) lt obtain k where
    r: "attempt < maxRetries"
       "passFailsAt directory timeout (world_proc world attempt) commands k"
       "world_fix world attempt = None"
       "retriedUpTo world directory timeout maxRetries commands (attempt + 1) a"
    by (auto simp: retriedUpTo_step)
  let ?pass = "verificationPass directory timeout (world_proc world attempt) 0 commands s"
  let ?s5 = "setVerificationState (\<lambda>prev. prev
                 \<lparr>vs_commands := ?fresh, vs_attempt := attempt + 1, vs_status := VsRunning\<rparr>)
              (effect (SubmitFix (failedAt directory timeout (world_proc world attempt) commands k)
                         (res_output (resultAt directory timeout (world_proc world attempt) commands k))
                         attempt)
                (effect (LogAttemptingFix (cmd_command (commands ! k)))
                  (setVerificationState (\<lambda>prev. prev\<lparr>vs_status := VsFixing\<rparr>) (fst ?pass))))"
  have step: "executeVerification world directory timeout maxRetries commands attempt s
                = caught (executeVerification world directory timeout maxRetries ?fresh (attempt + 1) ?s5)"
    by (simp only: exec_retry[OF r(2) r(1) r(3)] caught_def)
  have p1: "attempt + 1 \<le> a" using lt by simp
  have p2: "retriedUpTo world directory timeout maxRetries ?fresh (attempt + 1) a"
    using r(4) by (simp only: reset_retriedUpTo)
  note IH = Suc.hyps(1)[OF n p1 p2, of ?s5]
  from IH obtain sa where
    sa0: "executeVerification world directory timeout maxRetries ?fresh (attempt + 1) ?s5 =
               (if attempt + 1 < a
                then caught (executeVerification world directory timeout maxRetries
                               (map (\<lambda>c. c\<lparr>cmd_status := CmdPending\<rparr>) ?fresh) a sa)
                else executeVerification world directory timeout maxRetries ?fresh a sa)
        \<and> fixAttempts (app_trace sa) = fixAttempts (app_trace ?s5) @ [attempt + 1..a - 1]
        \<and> ranCommands (app_trace sa) = ranCommands (app_trace ?s5) @
               concat (map (\<lambda>b. started directory timeout (world_proc world b)
                                   (attemptCommands ?fresh (attempt + 1) b)) [attempt + 1..a - 1])
        \<and> (app_verificationState sa = None \<longleftrightarrow> app_verificationState ?s5 = None)
        \<and> (attempt + 1 < a \<longrightarrow> verificationStatus sa = map_option (\<lambda>_. VsRunning) (verificationStatus ?s5))
        \<and> (attempt + 1 = a \<longrightarrow> sa = ?s5)"
    by (rule exE)
  note sa = sa0[THEN conjunct1] sa0[THEN conjunct2, THEN conjunct1]
    sa0[THEN conjunct2, THEN conjunct2, THEN conjunct1]
    sa0[THEN conjunct2, THEN conjunct2, THEN conjunct2, THEN conjunct1]
    sa0[THEN conjunct2, THEN conjunct2, THEN conjunct2, THEN conjunct2, THEN conjunct1]
    sa0[THEN conjunct2, THEN conjunct2, THEN conjunct2, THEN conjunct2, THEN conjunct2]
  have a1: "a = attempt + 1 \<Longrightarrow> executeVerification world directory timeout maxRetries ?fresh (attempt + 1) ?s5
        = executeVerification world directory timeout maxRetries ?fresh a sa"
    using sa(6) by simp
  have c1: "executeVerification world directory timeout maxRetries commands attempt s =
              caught (executeVerification world directory timeout maxRetries ?fresh a sa)"
  proof (cases "attempt + 1 < a")
    case True
    then show ?thesis
      by (simp only: step sa(1) if_True reset_twice caught_caught)
  next
    case False
    with p1 have "a = attempt + 1" by simp
    from a1[OF this] show ?thesis
      by (simp only: step)
  qed
  have u: "[attempt..a - 1] = attempt # [attempt + 1..a - 1]"
    using lt by (simp add: upto_rec1)
  have f5: "fixAttempts (app_trace ?s5) = fixAttempts (app_trace s) @ [attempt]"
    by (simp add: pass_fixAttempts)
  have c2: "fixAttempts (app_trace sa) = fixAttempts (app_trace s) @ [attempt..a - 1]"
    unfolding sa(2) f5 u by simp
  have r5: "ranCommands (app_trace ?s5)
              = ranCommands (app_trace s) @ started directory timeout (world_proc world attempt) commands"
    by (simp add: pass_started)
  have m: "map (\<lambda>b. started directory timeout (world_proc world b)
                        (attemptCommands ?fresh (attempt + 1) b)) [attempt + 1..a - 1]
           = map (\<lambda>b. started directory timeout (world_proc world b)
                        (attemptCommands commands attempt b)) [attempt + 1..a - 1]"
    by (rule map_cong) (auto simp: attemptCommands_def comp_def)
  have c3: "ranCommands (app_trace sa) = ranCommands (app_trace s) @
               concat (map (\<lambda>b. started directory timeout (world_proc world b)
                                   (attemptCommands commands attempt b)) [attempt..a - 1])"
    unfolding sa(3) r5 m u by (simp add: attemptCommands_def)
  have c4: "app_verificationState sa = None \<longleftrightarrow> app_verificationState s = None"
    using sa(4) by (simp add: pass_state_defined)
  have v5: "verificationStatus ?s5 = map_option (\<lambda>_. VsRunning) (verificationStatus s)"
    by (cases "app_verificationState (fst ?pass)"; cases "app_verificationState s")
       (use pass_state_defined[of directory timeout "world_proc world attempt" 0 commands s] in
         \<open>simp_all add: verificationStatus_def setVerificationState_def effect_def\<close>)
  have c5: "verificationStatus sa = map_option (\<lambda>_. VsRunning) (verificationStatus s)"
  proof (cases "attempt + 1 < a")
    case True
    with sa(5) v5 show ?thesis
      by (simp add: option.map_comp comp_def)
  next
    case False
    with p1 have "a = attempt + 1" by simp
    with sa(6) v5 show ?thesis by simp
  qed
  show ?case
    using lt c1 c2 c3 c4 c5 by (intro exI[of _ sa]) simp
qed

lemma attemptCommands_ends:
  "passSucceeds directory timeout procs (attemptCommands commands attempt a)
     = passSucceeds directory timeout procs commands"
  "passFailsAt directory timeout procs (attemptCommands commands attempt a) k
     = passFailsAt directory timeout procs commands k"
  "passRejectsAt directory timeout procs (attemptCommands commands attempt a) k
     = passRejectsAt directory timeout procs commands k"
  by (simp_all add: attemptCommands_def reset_pass_ends)

lemma exec_last:
  assumes "attempt \<le> a"
    and "retriedUpTo world directory timeout maxRetries commands attempt a"
  obtains sa where
    "executeVerification world directory timeout maxRetries commands attempt s =
       (if attempt < a
        then caught (executeVerification world directory timeout maxRetries
                       (attemptCommands commands attempt a) a sa)
        else executeVerification world directory timeout maxRetries
               (attemptCommands commands attempt a) a sa)"
    "fixAttempts (app_trace sa) = fixAttempts (app_trace s) @ [attempt..a - 1]"
    "ranCommands (app_trace sa) = ranCommands (app_trace s) @
       concat (map (\<lambda>b. started directory timeout (world_proc world b)
                           (attemptCommands commands attempt b)) [attempt..a - 1])"
    "app_verificationState sa = None \<longleftrightarrow> app_verificationState s = None"
    "attempt = a \<longrightarrow> sa = s"
proof -
  from exec_chain[OF assms, of s] obtain sa where
    sa0: "executeVerification world directory timeout maxRetries commands attempt s =
               (if attempt < a
                then caught (executeVerification world directory timeout maxRetries
                               (map (\<lambda>c. c\<lparr>cmd_status := CmdPending\<rparr>) commands) a sa)
                else executeVerification world directory timeout maxRetries commands a sa)
           \<and> fixAttempts (app_trace sa) = fixAttempts (app_trace s) @ [attempt..a - 1]
           \<and> ranCommands (app_trace sa) = ranCommands (app_trace s) @
               concat (map (\<lambda>b. started directory timeout (world_proc world b)
                                   (attemptCommands commands attempt b)) [attempt..a - 1])
           \<and> (app_verificationState sa = None \<longleftrightarrow> app_verificationState s = None)
           \<and> (attempt < a \<longrightarrow> verificationStatus sa = map_option (\<lambda>_. VsRunning) (verificationStatus s))
           \<and> (attempt = a \<longrightarrow> sa = s)"
    by (rule exE)
  have e: "executeVerification world directory timeout maxRetries commands attempt s =
       (if attempt < a
        then caught (executeVerification world directory timeout maxRetries
                       (attemptCommands commands attempt a) a sa)
        else executeVerification world directory timeout maxRetries
               (attemptCommands commands attempt a) a sa)"
    using sa0[THEN conjunct1] assms(1) by (auto simp: attemptCommands_def)
  show ?thesis
    by (rule that[OF e sa0[THEN conjunct2, THEN conjunct1]
          sa0[THEN conjunct2, THEN conjunct2, THEN conjunct1]
          sa0[THEN conjunct2, THEN conjunct2, THEN conjunct2, THEN conjunct1]
          sa0[THEN conjunct2, THEN conjunct2, THEN conjunct2, THEN conjunct2, THEN conjunct2]])
qed

lemma upto_snoc: "i \<le> j \<Longrightarrow> [i..j - 1] @ [j] = [i..j]"
  using upto_rec2[of i j] by simp

lemma last_pass_list:
  assumes "attempt \<le> a"
  shows "concat (map f [attempt..a - 1]) @ f a = concat (map f [attempt..a])"
proof -
  have eq: "[attempt..a] = [attempt..a - 1] @ [a]"
    using upto_snoc[OF assms] by simp
  show ?thesis
    unfolding eq by simp
qed

text \<open>A run whose attempts up to \<open>a\<close> went through the fix-retry branch, by the end of pass \<open>a\<close>.\<close>

lemma exec_run:
  assumes "app_verificationState s \<noteq> None"
    and "attempt \<le> a"
    and "retriedUpTo world directory timeout maxRetries commands attempt a"
  shows "passSucceeds directory timeout (world_proc world a) commands \<Longrightarrow>
           fixAttempts (app_trace (fst (executeVerification world directory timeout maxRetries commands attempt s)))
             = fixAttempts (app_trace s) @ [attempt..a - 1]
           \<and> verificationStatus (fst (executeVerification world directory timeout maxRetries commands attempt s))
             = Some VsPassed
           \<and> app_phase (fst (executeVerification world directory timeout maxRetries commands attempt s))
             = Reviewing
           \<and> snd (executeVerification world directory timeout maxRetries commands attempt s) = None
           \<and> ranCommands (app_trace (fst (executeVerification world directory timeout maxRetries commands attempt s)))
             = ranCommands (app_trace s) @
               concat (map (\<lambda>b. started directory timeout (world_proc world b)
                                   (attemptCommands commands attempt b)) [attempt..a])"
    and "passFailsAt directory timeout (world_proc world a) commands k \<Longrightarrow> maxRetries \<le> a \<Longrightarrow>
           fixAttempts (app_trace (fst (executeVerification world directory timeout maxRetries commands attempt s)))
             = fixAttempts (app_trace s) @ [attempt..a - 1]
           \<and> verificationStatus (fst (executeVerification world directory timeout maxRetries commands attempt s))
             = Some VsFailed
           \<and> snd (executeVerification world directory timeout maxRetries commands attempt s) = None
           \<and> ranCommands (app_trace (fst (executeVerification world directory timeout maxRetries commands attempt s)))
             = ranCommands (app_trace s) @
               concat (map (\<lambda>b. started directory timeout (world_proc world b)
                                   (attemptCommands commands attempt b)) [attempt..a])"
    and "passFailsAt directory timeout (world_proc world a) commands k \<Longrightarrow> a < maxRetries \<Longrightarrow>
         world_fix world a = Some message \<Longrightarrow>
           fixAttempts (app_trace (fst (executeVerification world directory timeout maxRetries commands attempt s)))
             = fixAttempts (app_trace s) @ [attempt..a]
           \<and> verificationStatus (fst (executeVerification world directory timeout maxRetries commands attempt s))
             = Some VsFailed
           \<and> snd (executeVerification world directory timeout maxRetries commands attempt s) = None
           \<and> ranCommands (app_trace (fst (executeVerification world directory timeout maxRetries commands attempt s)))
             = ranCommands (app_trace s) @
               concat (map (\<lambda>b. started directory timeout (world_proc world b)
                                   (attemptCommands commands attempt b)) [attempt..a])"
    and "passRejectsAt directory timeout (world_proc world a) commands k \<Longrightarrow>
           fixAttempts (app_trace (fst (executeVerification world directory timeout maxRetries commands attempt s)))
             = fixAttempts (app_trace s) @ [attempt..a - 1]
           \<and> (if a = attempt
               then snd (executeVerification world directory timeout maxRetries commands attempt s)
                      = Some (projl (runVerificationCommand (world_proc world a k) (commands ! k)
                                       directory timeout))
                    \<and> verificationStatus
                        (fst (executeVerification world directory timeout maxRetries commands attempt s))
                      = verificationStatus s
               else snd (executeVerification world directory timeout maxRetries commands attempt s) = None
                    \<and> verificationStatus
                        (fst (executeVerification world directory timeout maxRetries commands attempt s))
                      = Some VsFailed)
           \<and> ranCommands (app_trace (fst (executeVerification world directory timeout maxRetries commands attempt s)))
             = ranCommands (app_trace s) @
               concat (map (\<lambda>b. started directory timeout (world_proc world b)
                                   (attemptCommands commands attempt b)) [attempt..a])"
proof -
  let ?cs = "attemptCommands commands attempt a"
  let ?f = "\<lambda>b. started directory timeout (world_proc world b) (attemptCommands commands attempt b)"
  from exec_last[OF assms(2,3), of s] obtain sa where
    sa: "executeVerification world directory timeout maxRetries commands attempt s =
           (if attempt < a
            then caught (executeVerification world directory timeout maxRetries ?cs a sa)
            else executeVerification world directory timeout maxRetries ?cs a sa)"
        "fixAttempts (app_trace sa) = fixAttempts (app_trace s) @ [attempt..a - 1]"
        "ranCommands (app_trace sa) = ranCommands (app_trace s) @ concat (map ?f [attempt..a - 1])"
        "app_verificationState sa = None \<longleftrightarrow> app_verificationState s = None"
        "attempt = a \<longrightarrow> sa = s"
    by blast
  have st: "app_verificationState sa \<noteq> None"
    using sa(4) assms(1) by simp
  have ran: "(ranCommands (app_trace s) @ concat (map ?f [attempt..a - 1])) @ ?f a
               = ranCommands (app_trace s) @ concat (map ?f [attempt..a])"
    using last_pass_list[OF assms(2), of ?f] by simp
  have sn: "snd (if attempt < a then caught r else r) = (if attempt < a then None else snd r)" for r
    by (simp add: caught_observations)
  have ob: "fixAttempts (app_trace (fst (if attempt < a then caught r else r))) = fixAttempts (app_trace (fst r))"
    "ranCommands (app_trace (fst (if attempt < a then caught r else r))) = ranCommands (app_trace (fst r))"
    "app_phase (fst (if attempt < a then caught r else r)) = app_phase (fst r)" for r
    by (simp_all add: caught_observations)
  have vs: "snd r = None \<Longrightarrow>
      verificationStatus (fst (if attempt < a then caught r else r)) = verificationStatus (fst r)" for r
    by (simp add: caught_observations)
  {
    assume "passSucceeds directory timeout (world_proc world a) commands"
    then have h: "passSucceeds directory timeout (world_proc world a) ?cs"
      by (simp only: attemptCommands_ends)
    note e = exec_end_succeeds[OF h, of maxRetries sa]
    show "fixAttempts (app_trace (fst (executeVerification world directory timeout maxRetries commands attempt s)))
             = fixAttempts (app_trace s) @ [attempt..a - 1]
           \<and> verificationStatus (fst (executeVerification world directory timeout maxRetries commands attempt s))
             = Some VsPassed
           \<and> app_phase (fst (executeVerification world directory timeout maxRetries commands attempt s))
             = Reviewing
           \<and> snd (executeVerification world directory timeout maxRetries commands attempt s) = None
           \<and> ranCommands (app_trace (fst (executeVerification world directory timeout maxRetries commands attempt s)))
             = ranCommands (app_trace s) @ concat (map ?f [attempt..a])"
      unfolding sa(1) sn ob vs[OF e(1)] e sa(2,3)
      using st ran by (simp add: verificationStatus_Some attemptCommands_def)
  }
  {
    assume "passFailsAt directory timeout (world_proc world a) commands k" and le: "maxRetries \<le> a"
    then have h: "passFailsAt directory timeout (world_proc world a) ?cs k"
      by (simp only: attemptCommands_ends)
    note e = exec_end_exhausted[OF h le, of sa]
    show "fixAttempts (app_trace (fst (executeVerification world directory timeout maxRetries commands attempt s)))
             = fixAttempts (app_trace s) @ [attempt..a - 1]
           \<and> verificationStatus (fst (executeVerification world directory timeout maxRetries commands attempt s))
             = Some VsFailed
           \<and> snd (executeVerification world directory timeout maxRetries commands attempt s) = None
           \<and> ranCommands (app_trace (fst (executeVerification world directory timeout maxRetries commands attempt s)))
             = ranCommands (app_trace s) @ concat (map ?f [attempt..a])"
      unfolding sa(1) sn ob vs[OF e(1)] e sa(2,3)
      using st ran by (simp add: verificationStatus_Some attemptCommands_def)
  }
  {
    assume "passFailsAt directory timeout (world_proc world a) commands k" and lt: "a < maxRetries"
      and fx: "world_fix world a = Some message"
    then have h: "passFailsAt directory timeout (world_proc world a) ?cs k"
      by (simp only: attemptCommands_ends)
    note e = exec_end_fix_throws[OF h lt fx, of sa]
    show "fixAttempts (app_trace (fst (executeVerification world directory timeout maxRetries commands attempt s)))
             = fixAttempts (app_trace s) @ [attempt..a]
           \<and> verificationStatus (fst (executeVerification world directory timeout maxRetries commands attempt s))
             = Some VsFailed
           \<and> snd (executeVerification world directory timeout maxRetries commands attempt s) = None
           \<and> ranCommands (app_trace (fst (executeVerification world directory timeout maxRetries commands attempt s)))
             = ranCommands (app_trace s) @ concat (map ?f [attempt..a])"
      unfolding sa(1) sn ob vs[OF e(1)] e sa(2,3)
      using st ran upto_snoc[OF assms(2)] by (simp add: verificationStatus_Some attemptCommands_def)
  }
  {
    assume "passRejectsAt directory timeout (world_proc world a) commands k"
    then have h: "passRejectsAt directory timeout (world_proc world a) ?cs k"
      by (simp only: attemptCommands_ends)
    note e = exec_end_rejects[OF h, of maxRetries sa]
    have v: "verificationStatus (fst (if attempt < a
                then caught (executeVerification world directory timeout maxRetries ?cs a sa)
                else executeVerification world directory timeout maxRetries ?cs a sa))
             = (if attempt < a then Some VsFailed else verificationStatus sa)"
      using st by (simp add: caught_observations e verificationStatus_Some)
    show "fixAttempts (app_trace (fst (executeVerification world directory timeout maxRetries commands attempt s)))
             = fixAttempts (app_trace s) @ [attempt..a - 1]
           \<and> (if a = attempt
               then snd (executeVerification world directory timeout maxRetries commands attempt s)
                      = Some (projl (runVerificationCommand (world_proc world a k) (commands ! k)
                                       directory timeout))
                    \<and> verificationStatus
                        (fst (executeVerification world directory timeout maxRetries commands attempt s))
                      = verificationStatus s
               else snd (executeVerification world directory timeout maxRetries commands attempt s) = None
                    \<and> verificationStatus
                        (fst (executeVerification world directory timeout maxRetries commands attempt s))
                      = Some VsFailed)
           \<and> ranCommands (app_trace (fst (executeVerification world directory timeout maxRetries commands attempt s)))
             = ranCommands (app_trace s) @ concat (map ?f [attempt..a])"
      unfolding sa(1) sn ob v e sa(2,3)
      using ran assms(2) sa(5) by (auto simp: attemptCommands_def)
  }
qed

lemma lastPass_cases:
  assumes "lastPass world directory timeout maxRetries commands e"
  obtains (Succeeds) "passSucceeds directory timeout (world_proc world e) commands"
  | (Rejects) k where "passRejectsAt directory timeout (world_proc world e) commands k"
  | (Exhausted) k where "passFailsAt directory timeout (world_proc world e) commands k" "maxRetries \<le> e"
  | (FixThrows) k message where "passFailsAt directory timeout (world_proc world e) commands k"
      "e < maxRetries" "world_fix world e = Some message"
proof -
  from assms consider
      "passSucceeds directory timeout (world_proc world e) commands"
    | k where "passRejectsAt directory timeout (world_proc world e) commands k"
    | k where "passFailsAt directory timeout (world_proc world e) commands k"
        "maxRetries \<le> e \<or> world_fix world e \<noteq> None"
    by (auto simp: lastPass_def list_ex_iff)
  then show ?thesis
  proof cases
    case 1 then show ?thesis by (rule Succeeds)
  next
    case 2 then show ?thesis by (rule Rejects)
  next
    case 3
    show ?thesis
    proof (cases "maxRetries \<le> e")
      case True
      with 3(1) show ?thesis by (rule Exhausted)
    next
      case False
      with 3(2) obtain message where "world_fix world e = Some message" by auto
      with 3(1) False show ?thesis by (intro FixThrows[of k message]) simp_all
    qed
  qed
qed

lemma lastPass_intros:
  "passSucceeds directory timeout (world_proc world e) commands \<Longrightarrow>
     lastPass world directory timeout maxRetries commands e"
  "passRejectsAt directory timeout (world_proc world e) commands k \<Longrightarrow>
     lastPass world directory timeout maxRetries commands e"
  "passFailsAt directory timeout (world_proc world e) commands k \<Longrightarrow> maxRetries \<le> e \<Longrightarrow>
     lastPass world directory timeout maxRetries commands e"
  "passFailsAt directory timeout (world_proc world e) commands k \<Longrightarrow> world_fix world e \<noteq> None \<Longrightarrow>
     lastPass world directory timeout maxRetries commands e"
  by (auto simp: lastPass_def list_ex_iff passRejectsAt_def passFailsAt_def)

lemma exists_last_pass:
  "\<exists>e\<ge>attempt. retriedUpTo world directory timeout maxRetries commands attempt e
      \<and> lastPass world directory timeout maxRetries commands e"
proof (induction "nat (maxRetries - attempt)" arbitrary: attempt)
  case 0
  then have le: "maxRetries \<le> attempt" by simp
  have "lastPass world directory timeout maxRetries commands attempt"
    by (cases rule: pass_end_cases[of directory timeout "world_proc world attempt" commands])
       (auto intro: lastPass_intros le)
  then show ?case
    using retriedUpTo_refl by blast
next
  case (Suc n)
  then have lt: "attempt < maxRetries" and n: "n = nat (maxRetries - (attempt + 1))" by simp_all
  show ?case
  proof (cases "lastPass world directory timeout maxRetries commands attempt")
    case True
    then show ?thesis
      using retriedUpTo_refl by blast
  next
    case False
    then obtain k where
      k: "passFailsAt directory timeout (world_proc world attempt) commands k"
      and fx: "world_fix world attempt = None"
      by (cases rule: pass_end_cases[of directory timeout "world_proc world attempt" commands])
         (auto intro: lastPass_intros)
    from Suc.hyps(1)[OF n] obtain e where
      e: "attempt + 1 \<le> e" "retriedUpTo world directory timeout maxRetries commands (attempt + 1) e"
         "lastPass world directory timeout maxRetries commands e"
      by blast
    have "retriedUpTo world directory timeout maxRetries commands attempt e"
      using e(1,2) lt k fx by (subst retriedUpTo_step) auto
    with e show ?thesis
      by (intro exI[of _ e]) simp
  qed
qed

lemma retriedUpTo_below:
  "retriedUpTo world directory timeout maxRetries commands attempt a \<Longrightarrow> attempt < a \<Longrightarrow> a \<le> maxRetries"
proof -
  assume r: "retriedUpTo world directory timeout maxRetries commands attempt a" and lt: "attempt < a"
  then have "a - 1 \<in> set [attempt..a - 1]" by simp
  with r have "a - 1 < maxRetries"
    unfolding retriedUpTo_def list_all_iff by blast
  then show ?thesis by simp
qed

lemma exec_fixAttempts_bound:
  assumes "app_verificationState s \<noteq> None"
  shows "\<exists>new. fixAttempts (app_trace (fst (executeVerification world directory timeout maxRetries commands attempt s)))
                 = fixAttempts (app_trace s) @ new
          \<and> int (length new) \<le> max 0 (maxRetries - attempt)
          \<and> (\<forall>b\<in>set new. attempt \<le> b \<and> b < maxRetries)"
proof -
  from exists_last_pass[of attempt world directory timeout maxRetries commands] obtain e where
    e: "attempt \<le> e" "retriedUpTo world directory timeout maxRetries commands attempt e"
       "lastPass world directory timeout maxRetries commands e"
    by blast
  note run = exec_run[OF assms e(1,2)]
  have below: "attempt < e \<Longrightarrow> e \<le> maxRetries"
    by (rule retriedUpTo_below[OF e(2)])
  have short: "int (length [attempt..e - 1]) \<le> max 0 (maxRetries - attempt)
               \<and> (\<forall>b\<in>set [attempt..e - 1]. attempt \<le> b \<and> b < maxRetries)"
    using e(1) below by (cases "attempt < e") auto
  have long: "e < maxRetries \<Longrightarrow> int (length [attempt..e]) \<le> max 0 (maxRetries - attempt)
               \<and> (\<forall>b\<in>set [attempt..e]. attempt \<le> b \<and> b < maxRetries)"
    using e(1) by auto
  from e(3) show ?thesis
  proof (cases rule: lastPass_cases)
    case Succeeds
    from run(1)[OF Succeeds] short show ?thesis by blast
  next
    case (Rejects k)
    from run(4)[OF Rejects] short show ?thesis by blast
  next
    case (Exhausted k)
    from run(2)[OF Exhausted] short show ?thesis by blast
  next
    case (FixThrows k message)
    from run(3)[OF FixThrows] long[OF FixThrows(2)] show ?thesis by blast
  qed
qed

lemma exec_trace_prefix:
  "prefix (app_trace s) (app_trace (fst (executeVerification world directory timeout maxRetries commands attempt s)))"
proof (induction "nat (maxRetries - attempt)" arbitrary: attempt s commands)
  case 0
  then have le: "maxRetries \<le> attempt" by simp
  note pp = pass_trace_prefix[of s directory timeout "world_proc world attempt" 0 commands]
  show ?case
  proof (cases rule: pass_end_cases[of directory timeout "world_proc world attempt" commands])
    case Succeeds
    with pp show ?thesis
      by (simp add: exec_succeeds prefix_order.trans)
  next
    case (Fails k)
    with pp show ?thesis
      by (simp add: exec_exhausted[OF Fails le] prefix_order.trans)
  next
    case (Rejects k)
    with pp show ?thesis
      by (simp add: exec_rejects[OF Rejects])
  qed
next
  case (Suc n)
  then have lt: "attempt < maxRetries" and n: "n = nat (maxRetries - (attempt + 1))" by simp_all
  note pp = pass_trace_prefix[of s directory timeout "world_proc world attempt" 0 commands]
  show ?case
  proof (cases rule: pass_end_cases[of directory timeout "world_proc world attempt" commands])
    case Succeeds
    with pp show ?thesis
      by (simp add: exec_succeeds prefix_order.trans)
  next
    case (Rejects k)
    with pp show ?thesis
      by (simp add: exec_rejects[OF Rejects])
  next
    case (Fails k)
    show ?thesis
    proof (cases "world_fix world attempt")
      case (Some message)
      with pp show ?thesis
        by (simp add: exec_fix_throws[OF Fails lt Some] prefix_order.trans)
    next
      case None
      let ?fresh = "map (\<lambda>c. c\<lparr>cmd_status := CmdPending\<rparr>) commands"
      let ?pass = "verificationPass directory timeout (world_proc world attempt) 0 commands s"
      let ?s5 = "setVerificationState (\<lambda>prev. prev
                 \<lparr>vs_commands := ?fresh, vs_attempt := attempt + 1, vs_status := VsRunning\<rparr>)
              (effect (SubmitFix (failedAt directory timeout (world_proc world attempt) commands k)
                         (res_output (resultAt directory timeout (world_proc world attempt) commands k))
                         attempt)
                (effect (LogAttemptingFix (cmd_command (commands ! k)))
                  (setVerificationState (\<lambda>prev. prev\<lparr>vs_status := VsFixing\<rparr>) (fst ?pass))))"
      let ?x = "executeVerification world directory timeout maxRetries ?fresh (attempt + 1) ?s5"
      have step: "executeVerification world directory timeout maxRetries commands attempt s = caught ?x"
        by (simp only: exec_retry[OF Fails lt None] caught_def)
      have a: "prefix (app_trace ?s5) (app_trace (fst ?x))"
        by (rule Suc.hyps(1)[OF n])
      have b: "prefix (app_trace s) (app_trace ?s5)"
        using pp by (simp add: prefix_order.trans)
      have c: "prefix (app_trace (fst ?x)) (app_trace (fst (caught ?x)))"
        by (cases ?x; cases "snd ?x") (auto simp: caught_def)
      show ?thesis
        unfolding step using b a c by (meson prefix_order.trans)
    qed
  qed
qed

lemma exec_enters_fix:
  assumes "passFailsAt directory timeout (world_proc world attempt) commands k"
    and "attempt < maxRetries"
  shows "prefix (app_trace (fst (verificationPass directory timeout (world_proc world attempt) 0 commands s)) @
            [LogAttemptingFix (cmd_command (commands ! k)),
             SubmitFix (failedAt directory timeout (world_proc world attempt) commands k)
               (res_output (resultAt directory timeout (world_proc world attempt) commands k)) attempt])
          (app_trace (fst (executeVerification world directory timeout maxRetries commands attempt s)))"
proof (cases "world_fix world attempt")
  case (Some message)
  show ?thesis
    by (simp add: exec_fix_throws[OF assms Some])
next
  case None
  let ?fresh = "map (\<lambda>c. c\<lparr>cmd_status := CmdPending\<rparr>) commands"
  let ?pass = "verificationPass directory timeout (world_proc world attempt) 0 commands s"
  let ?s5 = "setVerificationState (\<lambda>prev. prev
             \<lparr>vs_commands := ?fresh, vs_attempt := attempt + 1, vs_status := VsRunning\<rparr>)
          (effect (SubmitFix (failedAt directory timeout (world_proc world attempt) commands k)
                     (res_output (resultAt directory timeout (world_proc world attempt) commands k))
                     attempt)
            (effect (LogAttemptingFix (cmd_command (commands ! k)))
              (setVerificationState (\<lambda>prev. prev\<lparr>vs_status := VsFixing\<rparr>) (fst ?pass))))"
  let ?x = "executeVerification world directory timeout maxRetries ?fresh (attempt + 1) ?s5"
  have step: "executeVerification world directory timeout maxRetries commands attempt s = caught ?x"
    by (simp only: exec_retry[OF assms None] caught_def)
  have a: "prefix (app_trace ?s5) (app_trace (fst ?x))"
    by (rule exec_trace_prefix)
  have c: "prefix (app_trace (fst ?x)) (app_trace (fst (caught ?x)))"
    by (cases ?x; cases "snd ?x") (auto simp: caught_def)
  have t: "app_trace ?s5 = app_trace (fst ?pass) @
            [LogAttemptingFix (cmd_command (commands ! k)),
             SubmitFix (failedAt directory timeout (world_proc world attempt) commands k)
               (res_output (resultAt directory timeout (world_proc world attempt) commands k)) attempt]"
    by simp
  show ?thesis
    unfolding step t[symmetric] using a c by (rule prefix_order.trans)
qed

lemma not_blocks_iff:
  assumes "\<not> rejects directory timeout (commands ! k) (procs k)"
  shows "\<not> blocks directory timeout (commands ! k) (procs k) \<longleftrightarrow>
           res_success (resultAt directory timeout procs commands k) \<or> cmd_optional (commands ! k)"
  using assms
  by (cases "runVerificationCommand (procs k) (commands ! k) directory timeout")
     (auto simp: blocks_def rejects_def resultAt_def)

section \<open>Lemmas about selection and discovery\<close>

lemma proceed_excludes_hint_only:
  "item \<in> set (proceedSelectedItems slopItems) \<Longrightarrow>
   item_selected item \<and> item_category item \<notin> set HINT_ONLY_CATEGORIES \<and> item \<in> set slopItems"
  by (simp add: proceedSelectedItems_def)

lemma tasks_from_fixable_findings:
  "t \<in> set (handleProceed slopItems) \<Longrightarrow>
   \<exists>item\<in>set slopItems. item_selected item \<and> item_category item \<noteq> ''ui-slop''
      \<and> task_slopItemId t = item_id item"
  by (auto simp: handleProceed_def proceedSelectedItems_def generateTasksForSlopItem_def
        HINT_ONLY_CATEGORIES_def)

lemma check_keeps:
  assumes "dr_commands r \<noteq> []"
  shows "checkCargoToml p r = r" "checkPyproject p r = r" "checkGoMod p r = r" "checkMakefile p r = r"
  using assms
  by (simp_all add: checkCargoToml_def checkPyproject_def checkGoMod_def checkMakefile_def
        split: FileRead.splits)

lemma nothingFound_iff: "r = nothingFound \<longleftrightarrow> dr_commands r = [] \<and> dr_sources r = []"
  by (cases r) (auto simp: nothingFound_def)

lemma sources_packageJson:
  "dr_sources (checkPackageJson p nothingFound) =
     (if dr_commands (checkPackageJson p nothingFound) = [] then [] else [''package.json''])"
  by (simp add: checkPackageJson_def nothingFound_def Let_def split: FileRead.splits)

lemma sources_cargoToml:
  "dr_sources (checkCargoToml p nothingFound) =
     (if dr_commands (checkCargoToml p nothingFound) = [] then [] else [''Cargo.toml''])"
  by (simp add: checkCargoToml_def nothingFound_def)

lemma sources_pyproject:
  "dr_sources (checkPyproject p nothingFound) =
     (if dr_commands (checkPyproject p nothingFound) = [] then [] else [''pyproject.toml''])"
  by (simp add: checkPyproject_def nothingFound_def Let_def split: FileRead.splits)

lemma sources_goMod:
  "dr_sources (checkGoMod p nothingFound) =
     (if dr_commands (checkGoMod p nothingFound) = [] then [] else [''go.mod''])"
  by (simp add: checkGoMod_def nothingFound_def)

lemma sources_makefile:
  "dr_sources (checkMakefile p nothingFound) =
     (if dr_commands (checkMakefile p nothingFound) = [] then [] else [''Makefile''])"
  by (simp add: checkMakefile_def nothingFound_def Let_def split: FileRead.splits)

lemma check_nothing:
  "dr_commands (checkPackageJson p nothingFound) = [] \<Longrightarrow> checkPackageJson p nothingFound = nothingFound"
  "dr_commands (checkCargoToml p nothingFound) = [] \<Longrightarrow> checkCargoToml p nothingFound = nothingFound"
  "dr_commands (checkPyproject p nothingFound) = [] \<Longrightarrow> checkPyproject p nothingFound = nothingFound"
  "dr_commands (checkGoMod p nothingFound) = [] \<Longrightarrow> checkGoMod p nothingFound = nothingFound"
  "dr_commands (checkMakefile p nothingFound) = [] \<Longrightarrow> checkMakefile p nothingFound = nothingFound"
  by (simp_all only: nothingFound_iff sources_packageJson sources_cargoToml sources_pyproject
        sources_goMod sources_makefile if_True simp_thms)

lemma discover_first_ecosystem:
  "discoverVerificationCommands p =
     (if dr_commands (checkPackageJson p nothingFound) \<noteq> [] then checkPackageJson p nothingFound
      else if dr_commands (checkCargoToml p nothingFound) \<noteq> [] then checkCargoToml p nothingFound
      else if dr_commands (checkPyproject p nothingFound) \<noteq> [] then checkPyproject p nothingFound
      else if dr_commands (checkGoMod p nothingFound) \<noteq> [] then checkGoMod p nothingFound
      else checkMakefile p nothingFound)"
proof -
  have d: "discoverVerificationCommands p =
      checkMakefile p (checkGoMod p (checkPyproject p (checkCargoToml p
        (checkPackageJson p nothingFound))))"
    by (simp only: discoverVerificationCommands_def nothingFound_def)
  have nf: "dr_commands nothingFound = []"
    by (simp add: nothingFound_def)
  show ?thesis
  proof (cases "dr_commands (checkPackageJson p nothingFound) = []")
    case False
    then show ?thesis
      by (simp only: d check_keeps[OF False] if_True simp_thms)
  next
    case pkg: True
    show ?thesis
    proof (cases "dr_commands (checkCargoToml p nothingFound) = []")
      case False
      then show ?thesis
        by (simp only: d check_nothing(1)[OF pkg] pkg check_keeps[OF False] if_True if_False simp_thms nf)
    next
      case cargo: True
      show ?thesis
      proof (cases "dr_commands (checkPyproject p nothingFound) = []")
        case False
        then show ?thesis
          by (simp only: d check_nothing(1)[OF pkg] check_nothing(2)[OF cargo] pkg cargo
                check_keeps[OF False] if_True if_False simp_thms nf)
      next
        case py: True
        show ?thesis
        proof (cases "dr_commands (checkGoMod p nothingFound) = []")
          case False
          then show ?thesis
            by (simp only: d check_nothing(1)[OF pkg] check_nothing(2)[OF cargo]
                  check_nothing(3)[OF py] pkg cargo py check_keeps[OF False] if_True if_False simp_thms nf)
        next
          case go: True
          show ?thesis
            by (simp only: d check_nothing(1)[OF pkg] check_nothing(2)[OF cargo]
                  check_nothing(3)[OF py] check_nothing(4)[OF go] pkg cargo py go
                  if_True if_False simp_thms nf)
        qed
      qed
    qed
  qed
qed

lemma flags_packageJson:
  "c \<in> set (dr_commands (checkPackageJson p nothingFound)) \<Longrightarrow>
   cmd_optional c = (cmd_type c = Typecheck \<or> cmd_type c = Lint) \<and> cmd_status c = CmdPending"
  by (auto simp: checkPackageJson_def nothingFound_def Let_def createCommand_def
        split: FileRead.splits if_splits)

lemma flags_cargoToml:
  "c \<in> set (dr_commands (checkCargoToml p nothingFound)) \<Longrightarrow>
   cmd_optional c = (cmd_type c = Typecheck \<or> cmd_type c = Lint) \<and> cmd_status c = CmdPending"
  by (auto simp: checkCargoToml_def nothingFound_def createCommand_def split: if_splits)

lemma flags_pyproject:
  "c \<in> set (dr_commands (checkPyproject p nothingFound)) \<Longrightarrow>
   cmd_optional c = (cmd_type c = Typecheck \<or> cmd_type c = Lint) \<and> cmd_status c = CmdPending"
  by (auto simp: checkPyproject_def nothingFound_def Let_def createCommand_def
        split: FileRead.splits if_splits)

lemma flags_goMod:
  "c \<in> set (dr_commands (checkGoMod p nothingFound)) \<Longrightarrow>
   cmd_optional c = (cmd_type c = Typecheck \<or> cmd_type c = Lint) \<and> cmd_status c = CmdPending"
  by (auto simp: checkGoMod_def nothingFound_def createCommand_def split: if_splits)

lemma flags_makefile:
  "c \<in> set (dr_commands (checkMakefile p nothingFound)) \<Longrightarrow>
   cmd_optional c = (cmd_type c = Typecheck \<or> cmd_type c = Lint) \<and> cmd_status c = CmdPending"
  by (auto simp: checkMakefile_def nothingFound_def Let_def createCommand_def
        split: FileRead.splits if_splits)

lemma order_packageJson:
  "subseq (map cmd_type (dr_commands (checkPackageJson p nothingFound))) [Build, Typecheck, Test, Lint]"
  by (simp add: checkPackageJson_def nothingFound_def Let_def createCommand_def
        split: FileRead.splits)

lemma order_cargoToml:
  "subseq (map cmd_type (dr_commands (checkCargoToml p nothingFound))) [Build, Test, Lint]"
  by (simp add: checkCargoToml_def nothingFound_def createCommand_def)

lemma order_pyproject:
  "subseq (map cmd_type (dr_commands (checkPyproject p nothingFound))) [Test, Typecheck, Lint]"
  by (simp add: checkPyproject_def nothingFound_def Let_def createCommand_def
        split: FileRead.splits)

lemma order_goMod:
  "subseq (map cmd_type (dr_commands (checkGoMod p nothingFound))) [Build, Test, Lint]"
  by (simp add: checkGoMod_def nothingFound_def createCommand_def)

lemma order_makefile:
  "subseq (map cmd_type (dr_commands (checkMakefile p nothingFound))) [Build, Test, Lint, Typecheck]"
  by (simp add: checkMakefile_def nothingFound_def Let_def createCommand_def
        split: FileRead.splits)

section \<open>Lemmas about the parsers\<close>

lemma stringIncludes_iff: "stringIncludes s p \<longleftrightarrow> (\<exists>u v. s = u @ p @ v)"
proof (induction s)
  case Nil
  show ?case by auto
next
  case (Cons c cs)
  show ?case
  proof
    assume "stringIncludes (c # cs) p"
    then consider "prefix p (c # cs)" | "stringIncludes cs p" by auto
    then show "\<exists>u v. c # cs = u @ p @ v"
    proof cases
      case 1
      then obtain v where "c # cs = p @ v" by (auto simp: prefix_def)
      then have "c # cs = [] @ p @ v" by simp
      then show ?thesis by blast
    next
      case 2
      with Cons.IH obtain u v where "cs = u @ p @ v" by blast
      then have "c # cs = (c # u) @ p @ v" by simp
      then show ?thesis by blast
    qed
  next
    assume "\<exists>u v. c # cs = u @ p @ v"
    then obtain u v where uv: "c # cs = u @ p @ v" by blast
    show "stringIncludes (c # cs) p"
    proof (cases u)
      case Nil
      with uv have "prefix p (c # cs)" by (simp add: prefix_def)
      then show ?thesis by simp
    next
      case (Cons d u')
      with uv have "cs = u' @ p @ v" by simp
      with Cons.IH have "stringIncludes cs p" by blast
      then show ?thesis by simp
    qed
  qed
qed

lemma searchField_absent: "\<not> hasLabel body field \<Longrightarrow> searchField field body = None"
  by (induction body) (simp_all add: fieldValueAt_def)

lemma extractField_absent: "\<not> hasLabel body field \<Longrightarrow> extractField body field = None"
  by (simp add: extractField_def searchField_absent)

lemma parseInt_zero: "parseInt ''0'' = Some (Finite 0)"
  by (simp add: parseInt_def isSpace_def isDigit_def digitsValue_def digitValue_def toNumber_def
      roundToDouble_def)

lemma blocksFrom_length: "length (blocksFrom build index s) \<le> length s"
proof (induction build index s rule: blocksFrom.induct)
  case (1 build index)
  show ?case by simp
next
  case (2 build index c cs)
  show ?case
  proof (cases "matchHeading (c # cs)")
    case None
    with 2(1) show ?thesis by simp
  next
    case (Some m)
    obtain severity title afterHeading where m: "m = (severity, title, afterHeading)"
      by (cases m) auto
    obtain body rest where sb: "splitBody afterHeading = (body, rest)"
      by (cases "splitBody afterHeading") auto
    have "length rest < Suc (length cs)"
      using next_search_shorter[of c cs severity title afterHeading body rest] Some m sb by simp
    moreover have mh: "matchHeading (c # cs) = Some (severity, title, afterHeading)"
      using Some m by simp
    moreover have "length (blocksFrom build (index + 1) rest) \<le> length rest"
      by (rule 2(2)[OF mh refl refl sb[symmetric]])
    ultimately show ?thesis
      using sb by simp
  qed
qed

section \<open>Lemmas about decimal numbers and plain values\<close>

declare decimal.simps [simp del]

lemma takeWhile_run: "list_all P xs \<Longrightarrow> \<not> P y \<Longrightarrow> takeWhile P (xs @ y # ys) = xs"
  by (induction xs) simp_all

lemma dropWhile_run: "list_all P xs \<Longrightarrow> \<not> P y \<Longrightarrow> dropWhile P (xs @ y # ys) = y # ys"
  by (induction xs) simp_all

lemma isDigit_char_of: "(n::nat) < 10 \<Longrightarrow> isDigit (char_of (48 + n))"
  by (simp add: isDigit_def)

lemma digitValue_char_of: "(n::nat) < 10 \<Longrightarrow> digitValue (char_of (48 + n)) = int n"
  by (simp add: digitValue_def)

lemma decimal_digits: "list_all isDigit (decimal n)"
proof (induction n rule: decimal.induct)
  case (1 n)
  show ?case
  proof (cases "n < 10")
    case True
    then show ?thesis by (subst decimal.simps) (simp add: isDigit_char_of)
  next
    case False
    then show ?thesis using 1 by (subst decimal.simps) (simp add: isDigit_char_of)
  qed
qed

lemma decimal_not_empty: "decimal n \<noteq> []"
  by (subst decimal.simps) simp

lemma digitsValue_snoc: "digitsValue (ds @ [d]) = 10 * digitsValue ds + digitValue d"
  by (simp add: digitsValue_def)

lemma digitsValue_decimal: "digitsValue (decimal n) = int n"
proof (induction n rule: decimal.induct)
  case (1 n)
  show ?case
  proof (cases "n < 10")
    case True
    then show ?thesis
      by (subst decimal.simps) (simp add: digitsValue_def digitValue_char_of)
  next
    case False
    have "digitsValue (decimal n) = 10 * int (n div 10) + int (n mod 10)"
      using False 1 by (subst decimal.simps) (simp add: digitsValue_snoc digitValue_char_of)
    also have "\<dots> = int n"
      by presburger
    finally show ?thesis .
  qed
qed

lemma isDigit_plain:
  "isDigit c \<Longrightarrow> \<not> isSpace c \<and> \<not> isLineTerminator c \<and> c \<noteq> CHR ''-'' \<and> c \<noteq> CHR ''+''
     \<and> c \<noteq> CHR ''#'' \<and> c \<noteq> CHR ''*'' \<and> c \<noteq> CHR ''.''"
  by (auto simp: isDigit_def isSpace_def isLineTerminator_def)

lemma decimal_no_hash: "CHR ''#'' \<notin> set (decimal n)"
  using decimal_digits[of n] isDigit_plain by (auto simp: list_all_iff)

lemma decimal_no_star: "CHR ''*'' \<notin> set (decimal n)"
  using decimal_digits[of n] isDigit_plain by (auto simp: list_all_iff)

lemma trim_plain: "v \<noteq> [] \<Longrightarrow> \<not> isSpace (hd v) \<Longrightarrow> \<not> isSpace (last v) \<Longrightarrow> trim v = v"
proof -
  assume a: "v \<noteq> []" "\<not> isSpace (hd v)" "\<not> isSpace (last v)"
  from a(1,2) have d: "dropWhile isSpace v = v"
    by (cases v) simp_all
  from a(1,3) have "dropWhile isSpace (rev v) = rev v"
    by (cases "rev v") (simp_all add: last_rev hd_rev[symmetric])
  with d show ?thesis by (simp add: trim_def)
qed

lemma decimal_hd_last: "isDigit (hd (decimal n)) \<and> isDigit (last (decimal n))"
  using decimal_digits[of n] decimal_not_empty[of n] by (simp add: list_all_iff)

lemma trim_decimal: "trim (decimal n) = decimal n"
  using decimal_hd_last[of n] isDigit_plain decimal_not_empty by (intro trim_plain) auto

lemma toNumber_exact: "m < 2 ^ 53 \<Longrightarrow> toNumber False m = Finite m"
proof -
  assume m: "m < 2 ^ 53"
  have "(2::int) ^ 53 \<le> 2 ^ 1024"
    by (rule power_increasing) simp_all
  with m have "\<not> 2 ^ 1024 \<le> m"
    by linarith
  with m show ?thesis
    by (simp add: toNumber_def roundToDouble_def)
qed

lemma parseInt_decimal: "parseInt (decimal n) = Some (toNumber False (int n))"
proof -
  obtain c r where cr: "decimal n = c # r"
    using decimal_not_empty[of n] by (cases "decimal n") auto
  have c: "isDigit c" using decimal_hd_last[of n] cr by simp
  have t: "takeWhile isDigit (decimal n) = decimal n"
    using decimal_digits[of n] by (simp add: takeWhile_eq_all_conv list_all_iff)
  have d: "dropWhile isSpace (decimal n) = decimal n"
    using c isDigit_plain[of c] cr by simp
  have neg: "(case decimal n of c # _ \<Rightarrow> c = CHR ''-'' | [] \<Rightarrow> False) = False"
    using c isDigit_plain[of c] cr by simp
  have u: "(case decimal n of c # r \<Rightarrow> if c = CHR ''-'' \<or> c = CHR ''+'' then r else decimal n
            | [] \<Rightarrow> []) = decimal n"
    using c isDigit_plain[of c] cr by simp
  show ?thesis
    unfolding parseInt_def Let_def d neg u t
    by (simp add: decimal_not_empty digitsValue_decimal)
qed

section \<open>Lemmas about the body of a block\<close>

lemma matchLiteral_Some_iff: "matchLiteral p s = Some r \<longleftrightarrow> s = p @ r"
  by (induction p s rule: matchLiteral.induct) auto

lemma matchLiteral_before_separator:
  "matchLiteral p (t @ c # z) = Some r \<Longrightarrow> c \<notin> set p \<Longrightarrow> \<exists>r'. matchLiteral p t = Some r'"
proof (induction p t rule: matchLiteral.induct)
  case (1 s)
  show ?case by simp
next
  case (2 p ps)
  then show ?case by (simp split: if_splits)
next
  case (3 p ps c' cs)
  then show ?case by (simp split: if_splits)
qed

lemma matchLiteralCI_before_separator:
  "matchLiteralCI p (t @ c # z) = Some r \<Longrightarrow> \<forall>q\<in>set p. canonicalize q \<noteq> canonicalize c \<Longrightarrow>
   \<exists>r'. matchLiteralCI p t = Some r'"
proof (induction p t rule: matchLiteralCI.induct)
  case (1 s)
  show ?case by simp
next
  case (2 p ps)
  then show ?case by (simp split: if_splits)
next
  case (3 p ps c' cs)
  then show ?case by (simp split: if_splits)
qed

lemma stringIncludes_prefix: "prefix p v \<Longrightarrow> stringIncludes v p"
  by (cases v) simp_all

lemma not_includes_Cons:
  "\<not> stringIncludes (c # v) p \<Longrightarrow> \<not> prefix p (c # v) \<and> \<not> stringIncludes v p"
  by simp

text \<open>The lookahead of the block expression needs a \<^verbatim>\<open>#\<close>.\<close>

lemma bodyEnds_no_hash: "c \<noteq> CHR ''#'' \<Longrightarrow> \<not> bodyEnds (c # cs)"
  by (simp add: bodyEnds_def)

lemma bodyEnds_in_value:
  assumes "\<not> stringIncludes (c # v) ''## ''"
  shows "\<not> bodyEnds (c # v @ CHR 0x0A # z)"
proof
  assume b: "bodyEnds (c # v @ CHR 0x0A # z)"
  from assms have np: "\<not> prefix ''## '' (c # v)" and nv: "\<not> stringIncludes v ''## ''"
    by simp_all
  from b consider
      r where "matchLiteral ''### '' ((c # v) @ CHR 0x0A # z) = Some r"
    | r where "matchLiteral ''## '' ((c # v) @ CHR 0x0A # z) = Some r"
    unfolding bodyEnds_def by (auto split: option.splits)
  then show False
  proof cases
    case 1
    from matchLiteral_before_separator[OF 1] obtain r' where "matchLiteral ''### '' (c # v) = Some r'"
      by auto
    then have "c # v = ''### '' @ r'"
      by (simp only: matchLiteral_Some_iff)
    then have "prefix ''## '' v"
      by (simp add: prefix_def)
    with nv show False
      using stringIncludes_prefix by blast
  next
    case 2
    from matchLiteral_before_separator[OF 2] obtain r' where "matchLiteral ''## '' (c # v) = Some r'"
      by auto
    then have "c # v = ''## '' @ r'"
      by (simp only: matchLiteral_Some_iff)
    then have "prefix ''## '' (c # v)"
      by (simp add: prefix_def)
    with np show False by blast
  qed
qed

lemma splitBody_stop: "bodyEnds s \<Longrightarrow> splitBody s = ([], s)"
  by (cases s) simp_all

lemma splitBody_step:
  "\<not> bodyEnds (c # cs) \<Longrightarrow> splitBody (c # cs) = (c # fst (splitBody cs), snd (splitBody cs))"
  by (simp split: prod.splits)

lemma splitBody_Cons_no_hash:
  "c \<noteq> CHR ''#'' \<Longrightarrow> splitBody (c # cs) = (c # fst (splitBody cs), snd (splitBody cs))"
  by (rule splitBody_step) (rule bodyEnds_no_hash)

lemma splitBody_skip_no_hash:
  "CHR ''#'' \<notin> set x \<Longrightarrow> splitBody (x @ y) = (x @ fst (splitBody y), snd (splitBody y))"
proof (induction x)
  case Nil
  show ?case by simp
next
  case (Cons c x)
  then have "c \<noteq> CHR ''#''" and "CHR ''#'' \<notin> set x" by auto
  then show ?case
    using Cons.IH by (simp add: splitBody_Cons_no_hash del: splitBody.simps)
qed

lemma splitBody_skip_value:
  "\<not> stringIncludes v ''## '' \<Longrightarrow>
   splitBody (v @ CHR 0x0A # z) = (v @ fst (splitBody (CHR 0x0A # z)), snd (splitBody (CHR 0x0A # z)))"
proof (induction v)
  case Nil
  show ?case by simp
next
  case (Cons c v)
  from Cons.prems have nv: "\<not> stringIncludes v ''## ''" by simp
  have "splitBody (c # v @ CHR 0x0A # z)
          = (c # fst (splitBody (v @ CHR 0x0A # z)), snd (splitBody (v @ CHR 0x0A # z)))"
    by (rule splitBody_step[OF bodyEnds_in_value[OF Cons.prems]])
  then show ?case
    by (simp only: Cons.IH[OF nv] fst_conv snd_conv append_Cons)
qed

section \<open>Lemmas about the search for a field\<close>

lemma canonicalize_star: "canonicalize c = 42 \<longleftrightarrow> c = CHR ''*''"
proof
  assume a: "canonicalize c = 42"
  then have "of_char c = (of_char (CHR ''*'') :: nat)"
    by (auto simp: canonicalize_def isLower_def split: if_splits)
  then show "c = CHR ''*''"
    by (simp only: of_char_eq_iff)
next
  assume "c = CHR ''*''"
  then show "canonicalize c = 42"
    by (simp add: canonicalize_def isLower_def)
qed

lemma fieldValueAt_no_star: "c \<noteq> CHR ''*'' \<Longrightarrow> fieldValueAt field (c # cs) = None"
  using canonicalize_star[of c] canonicalize_star[of "CHR ''*''"]
  by (simp add: fieldValueAt_def)

lemma searchField_skip_no_star:
  "CHR ''*'' \<notin> set x \<Longrightarrow> searchField field (x @ y) = searchField field y"
proof (induction x)
  case Nil
  show ?case by simp
next
  case (Cons c x)
  then have c: "c \<noteq> CHR ''*''" and x: "CHR ''*'' \<notin> set x" by auto
  show ?case
    using Cons.IH[OF x] by (simp add: fieldValueAt_no_star[OF c])
qed

lemma hasLabel_Cons:
  "\<not> hasLabel (c # v) field \<Longrightarrow>
   matchLiteralCI (''**'' @ field @ '':**'') (c # v) = None \<and> \<not> hasLabel v field"
  by simp

lemma fieldValueAt_in_value:
  assumes "\<not> hasLabel (c # v) field"
      and "\<forall>q\<in>set (''**'' @ field @ '':**''). canonicalize q \<noteq> canonicalize (CHR 0x0A)"
  shows "fieldValueAt field (c # v @ CHR 0x0A # z) = None"
proof (cases "matchLiteralCI (''**'' @ field @ '':**'') ((c # v) @ CHR 0x0A # z)")
  case None
  then show ?thesis by (simp add: fieldValueAt_def)
next
  case (Some r)
  from matchLiteralCI_before_separator[OF Some assms(2)] hasLabel_Cons[OF assms(1)]
  show ?thesis by auto
qed

lemma searchField_skip_value:
  assumes "\<not> hasLabel v field"
      and "\<forall>q\<in>set (''**'' @ field @ '':**''). canonicalize q \<noteq> canonicalize (CHR 0x0A)"
  shows "searchField field (v @ CHR 0x0A # z) = searchField field (CHR 0x0A # z)"
  using assms(1)
proof (induction v)
  case Nil
  show ?case by simp
next
  case (Cons c v)
  from Cons.prems have nv: "\<not> hasLabel v field" by simp
  have "fieldValueAt field (c # v @ CHR 0x0A # z) = None"
    by (rule fieldValueAt_in_value[OF Cons.prems assms(2)])
  then have "searchField field (c # v @ CHR 0x0A # z) = searchField field (v @ CHR 0x0A # z)"
    by simp
  then show ?case
    by (simp only: Cons.IH[OF nv] append_Cons)
qed

lemma label_separator:
  "\<forall>q\<in>set (''**'' @ ''Line'' @ '':**''). canonicalize q \<noteq> canonicalize (CHR 0x0A)"
  "\<forall>q\<in>set (''**'' @ ''Category'' @ '':**''). canonicalize q \<noteq> canonicalize (CHR 0x0A)"
  "\<forall>q\<in>set (''**'' @ ''Description'' @ '':**''). canonicalize q \<noteq> canonicalize (CHR 0x0A)"
  by (simp_all add: canonicalize_def isLower_def)

lemma dotPlus_value:
  "plainValue v \<Longrightarrow> dotPlus (v @ CHR 0x0A # z) = Some v"
  unfolding dotPlus_def Let_def plainValue_def
  using takeWhile_run[of "\<lambda>c. \<not> isLineTerminator c" v "CHR 0x0A" z]
  by (simp add: isLineTerminator_def)

lemma spacesThenValue_value:
  "plainValue v \<Longrightarrow> spacesThenValue (v @ CHR 0x0A # z) = Some v"
proof -
  assume p: "plainValue v"
  then obtain c r where cr: "v = c # r" and c: "\<not> isSpace c"
    by (cases v) (auto simp: plainValue_def)
  have "spacesThenValue (c # r @ CHR 0x0A # z) = dotPlus (c # r @ CHR 0x0A # z)"
    using c by simp
  then show ?thesis
    using dotPlus_value[OF p, of z] cr by simp
qed

lemma plainValue_decimal: "plainValue (decimal n)"
  using decimal_digits[of n] decimal_hd_last[of n] isDigit_plain decimal_not_empty[of n]
  by (auto simp: plainValue_def list_all_iff)

lemma trim_plainValue: "plainValue v \<Longrightarrow> trim v = v"
  by (rule trim_plain) (simp_all add: plainValue_def)

section \<open>Lemmas about a written issue\<close>

lemma splitBody_Cons_skip:
  "c \<noteq> CHR ''#'' \<Longrightarrow> splitBody (c # cs) = (case splitBody cs of (body, rest) \<Rightarrow> (c # body, rest))"
  by (simp add: bodyEnds_no_hash)

lemma splitBody_run_skip:
  "CHR ''#'' \<notin> set x \<Longrightarrow> splitBody (x @ y) = (case splitBody y of (body, rest) \<Rightarrow> (x @ body, rest))"
  using splitBody_skip_no_hash[of x y] by (simp add: case_prod_beta del: splitBody.simps)

lemma splitBody_value_skip:
  "\<not> stringIncludes v ''## '' \<Longrightarrow>
   splitBody (v @ CHR 0x0A # z) = (case splitBody (CHR 0x0A # z) of (body, rest) \<Rightarrow> (v @ body, rest))"
  using splitBody_skip_value[of v z] by (simp add: case_prod_beta del: splitBody.simps)

lemma matchHeading_render:
  assumes "w_severity w \<noteq> []" and "list_all isWordChar (w_severity w)" and "plainValue (w_title w)"
  shows "matchHeading (renderHeading n w @ r) = Some (w_severity w, w_title w, r)"
proof -
  define s5 where "s5 = w_title w @ CHR 0x0A # r"
  define s3 where "s3 = w_severity w @ CHR '']'' # CHR '' '' # s5"
  define s1 where "s1 = decimal n @ CHR ''.'' # CHR '' '' # CHR ''['' # s3"
  have s: "renderHeading n w @ r = ''### '' @ s1"
    by (simp add: renderHeading_def s1_def s3_def s5_def)
  have m1: "matchLiteral ''### '' (''### '' @ s1) = Some s1"
    by simp
  have t1: "takeWhile isDigit s1 = decimal n"
    unfolding s1_def by (rule takeWhile_run) (simp_all add: decimal_digits isDigit_def)
  have d1: "dropWhile isDigit s1 = CHR ''.'' # CHR '' '' # CHR ''['' # s3"
    unfolding s1_def by (rule dropWhile_run) (simp_all add: decimal_digits isDigit_def)
  have w: "\<not> isWordChar (CHR '']'')"
    by (simp add: isWordChar_def isUpper_def isLower_def isDigit_def)
  have t3: "takeWhile isWordChar s3 = w_severity w"
    unfolding s3_def by (rule takeWhile_run) (simp_all add: assms(2) w)
  have d3: "dropWhile isWordChar s3 = CHR '']'' # CHR '' '' # s5"
    unfolding s3_def by (rule dropWhile_run) (simp_all add: assms(2) w)
  have l: "list_all (\<lambda>c. \<not> isLineTerminator c) (w_title w)" and ne: "w_title w \<noteq> []"
    using assms(3) by (simp_all add: plainValue_def)
  have t5: "takeWhile (\<lambda>c. \<not> isLineTerminator c) s5 = w_title w"
    unfolding s5_def by (rule takeWhile_run[OF l]) (simp add: isLineTerminator_def)
  have d5: "dropWhile (\<lambda>c. \<not> isLineTerminator c) s5 = CHR 0x0A # r"
    unfolding s5_def by (rule dropWhile_run[OF l]) (simp add: isLineTerminator_def)
  show ?thesis
    unfolding matchHeading_def s m1
    by (simp add: t1 d1 t3 d3 t5 d5 decimal_not_empty assms(1) ne)
qed

lemma bodyEnds_renderIssue: "bodyEnds (renderIssue n w @ t)"
proof -
  define s1 where
    "s1 = decimal n @ CHR ''.'' # '' ['' @ w_severity w @ ''] '' @ w_title w @ CHR 0x0A # renderBullets w @ t"
  have s: "renderIssue n w @ t = ''### '' @ s1"
    by (simp add: renderIssue_def renderHeading_def s1_def)
  have m1: "matchLiteral ''### '' (''### '' @ s1) = Some s1"
    by simp
  have t1: "takeWhile isDigit s1 = decimal n"
    unfolding s1_def by (rule takeWhile_run) (simp_all add: decimal_digits isDigit_def)
  have d1: "dropWhile isDigit s1
              = CHR ''.'' # '' ['' @ w_severity w @ ''] '' @ w_title w @ CHR 0x0A # renderBullets w @ t"
    unfolding s1_def by (rule dropWhile_run) (simp_all add: decimal_digits isDigit_def)
  show ?thesis
    unfolding bodyEnds_def s m1 by (simp add: t1 d1 decimal_not_empty)
qed

lemma splitBody_bullets:
  assumes "wellFormedIssue w" and "bodyEnds rest" and "CHR ''#'' \<notin> set sep"
  shows "splitBody (renderBullets w @ sep @ rest) = (renderBullets w @ sep, rest)"
proof -
  from assms(1) have v:
    "\<not> stringIncludes (w_file w) ''## ''"
    "\<not> stringIncludes (w_category w) ''## ''"
    "\<not> stringIncludes (w_description w) ''## ''"
    by (simp_all add: wellFormedIssue_def)
  show ?thesis
    unfolding renderBullets_def
    by (simp del: splitBody.simps
        add: splitBody_Cons_skip splitBody_value_skip[OF v(1)] splitBody_value_skip[OF v(2)]
             splitBody_value_skip[OF v(3)] splitBody_run_skip[OF decimal_no_hash]
             splitBody_run_skip[OF assms(3)] splitBody_stop[OF assms(2)])
qed

lemma extractField_File:
  assumes "wellFormedIssue w"
  shows "extractField (renderBullets w @ t) ''File'' = Some (w_file w)"
proof -
  from assms have p: "plainValue (w_file w)"
    by (simp add: wellFormedIssue_def)
  show ?thesis
    unfolding extractField_def renderBullets_def
    by (simp add: fieldValueAt_def canonicalize_def isLower_def isSpace_def
        spacesThenValue_value[OF p] trim_plainValue[OF p])
qed

lemma extractField_Line:
  assumes "wellFormedIssue w"
  shows "extractField (renderBullets w @ t) ''Line'' = Some (decimal (w_line w))"
proof -
  from assms have f: "\<not> hasLabel (w_file w) ''Line''"
    by (simp add: wellFormedIssue_def)
  note p = plainValue_decimal[of "w_line w"]
  show ?thesis
    unfolding extractField_def renderBullets_def
    by (simp add: fieldValueAt_def canonicalize_def isLower_def isSpace_def
        searchField_skip_value[OF f]
        spacesThenValue_value[OF p] trim_plainValue[OF p])
qed

lemma extractField_Category:
  assumes "wellFormedIssue w"
  shows "extractField (renderBullets w @ t) ''Category'' = Some (w_category w)"
proof -
  from assms have f: "\<not> hasLabel (w_file w) ''Category''" and p: "plainValue (w_category w)"
    by (simp_all add: wellFormedIssue_def)
  show ?thesis
    unfolding extractField_def renderBullets_def
    by (simp add: fieldValueAt_def canonicalize_def isLower_def isSpace_def
        searchField_skip_value[OF f] searchField_skip_no_star[OF decimal_no_star]
        spacesThenValue_value[OF p] trim_plainValue[OF p])
qed

lemma extractField_Description:
  assumes "wellFormedIssue w"
  shows "extractField (renderBullets w @ t) ''Description'' = Some (w_description w)"
proof -
  from assms have f: "\<not> hasLabel (w_file w) ''Description''"
    and c: "\<not> hasLabel (w_category w) ''Description''" and p: "plainValue (w_description w)"
    by (simp_all add: wellFormedIssue_def)
  show ?thesis
    unfolding extractField_def renderBullets_def
    by (simp add: fieldValueAt_def canonicalize_def isLower_def isSpace_def
        searchField_skip_value[OF f] searchField_skip_value[OF c]
        searchField_skip_no_star[OF decimal_no_star]
        spacesThenValue_value[OF p] trim_plainValue[OF p])
qed

lemma findingOf_bullets:
  assumes "wellFormedIssue w"
  shows "findingOf index (w_severity w) (w_title w) (renderBullets w @ t) = expectedFinding index w"
proof -
  from assms have ne: "w_file w \<noteq> []" "w_category w \<noteq> []" "w_description w \<noteq> []"
    and ti: "plainValue (w_title w)" and l: "0 < w_line w" and b: "int (w_line w) < 2 ^ 53"
    by (simp_all add: wellFormedIssue_def plainValue_def)
  show ?thesis
    unfolding findingOf_def expectedFinding_def lineOf_def
    by (simp add: extractField_File[OF assms] extractField_Line[OF assms]
        extractField_Category[OF assms] extractField_Description[OF assms]
        orElse_def ne decimal_not_empty parseInt_decimal toNumber_exact[OF b] l trim_plainValue[OF ti])
qed

lemma blocksFrom_issue:
  assumes "wellFormedIssue w" and "bodyEnds rest" and "CHR ''#'' \<notin> set sep"
  shows "blocksFrom findingOf index (renderIssue n w @ sep @ rest)
           = expectedFinding index w # blocksFrom findingOf (Suc index) rest"
proof -
  from assms(1) have h: "w_severity w \<noteq> []" "list_all isWordChar (w_severity w)"
    "plainValue (w_title w)"
    by (simp_all add: wellFormedIssue_def)
  obtain c cs where cs: "renderIssue n w @ sep @ rest = c # cs"
    by (cases "renderIssue n w @ sep @ rest") (simp_all add: renderIssue_def renderHeading_def)
  have m: "matchHeading (c # cs) = Some (w_severity w, w_title w, renderBullets w @ sep @ rest)"
    using matchHeading_render[OF h, of n "renderBullets w @ sep @ rest"] cs
    by (simp add: renderIssue_def)
  have "blocksFrom findingOf index (c # cs)
          = findingOf index (w_severity w) (w_title w) (renderBullets w @ sep)
            # blocksFrom findingOf (Suc index) rest"
    by (simp add: m splitBody_bullets[OF assms] del: splitBody.simps)
  then show ?thesis
    by (simp only: cs findingOf_bullets[OF assms(1)])
qed

lemma blocksFrom_title:
  "blocksFrom build index (''# Deslop Scan Results\<newline>\<newline>## Issues Found\<newline>\<newline>'' @ s)
     = blocksFrom build index s"
  by (simp add: matchHeading_def)

lemma blocksFrom_renderIssues:
  "list_all wellFormedIssue ws \<Longrightarrow>
   blocksFrom findingOf index (renderIssues n ws)
     = map (\<lambda>(i, w). expectedFinding i w) (enumerate index ws)"
proof (induction ws arbitrary: index n)
  case Nil
  show ?case by simp
next
  case (Cons w ws)
  from Cons.prems have w: "wellFormedIssue w" and ws: "list_all wellFormedIssue ws"
    by simp_all
  show ?case
  proof (cases ws)
    case Nil
    have "blocksFrom findingOf index (renderIssue n w @ [] @ [])
            = expectedFinding index w # blocksFrom findingOf (Suc index) []"
      by (rule blocksFrom_issue[OF w]) (simp_all add: bodyEnds_def)
    then show ?thesis
      using Nil by simp
  next
    case (Cons w' ws')
    have e: "bodyEnds (renderIssues (Suc n) ws)"
      using bodyEnds_renderIssue[of "Suc n" w'] Cons by simp
    have "blocksFrom findingOf index (renderIssue n w @ ''\<newline>'' @ renderIssues (Suc n) ws)
            = expectedFinding index w # blocksFrom findingOf (Suc index) (renderIssues (Suc n) ws)"
      by (rule blocksFrom_issue[OF w e]) simp
    then show ?thesis
      using Cons.IH[OF ws, of "Suc index" "Suc n"] Cons by simp
  qed
qed

declare decimal.simps [simp]

section \<open>The claims\<close>

text \<open>
  Claim C1 (bounded verification retry). Take a run of \<open>executeVerification\<close> that starts
  at \<open>attempt\<close> with a verification state, and an attempt \<open>a\<close> from \<open>attempt\<close> on such
  that every attempt before \<open>a\<close> goes through the whole fix-retry branch (it is below
  \<open>maxRetries\<close>, its pass fails, and the submission of its fix prompt completes).

  The fix prompts submitted are those of consecutive attempts from \<open>attempt\<close> on, all
  below \<open>maxRetries\<close>, at most \<open>maxRetries - attempt\<close> of them: with \<open>maxRetries = 3\<close> and
  a start at attempt 1, at most two. Some attempt is the last one. The fix-retry branch,
  entered when the pass of \<open>attempt\<close> fails below \<open>maxRetries\<close>, is the status \<open>fixing\<close>,
  the log line and the fix prompt for the failed command, the reset of every command to
  pending with the next attempt number and the status \<open>running\<close>, and the run of
  \<open>executeVerification\<close> from there, whose rejection the \<^verbatim>\<open>catch\<close> block takes. When \<open>a\<close>
  is the last attempt, the processes started are those of the passes from \<open>attempt\<close> to
  \<open>a\<close>, the later passes over the commands reset to pending.

  By the end of the pass of \<open>a\<close>: when it succeeds, the prompts are those of the attempts
  before \<open>a\<close>, the status is \<open>passed\<close> and the review starts; when it fails with \<open>a\<close> not
  below \<open>maxRetries\<close>, the prompts are those of the attempts before \<open>a\<close> and the status
  is \<open>failed\<close>; when it fails below \<open>maxRetries\<close> and the submission throws, the prompts
  are those up to \<open>a\<close> and the status is \<open>failed\<close>; when a \<^verbatim>\<open>spawn\<close> throws in it, the
  prompts are those of the attempts before \<open>a\<close>, and the run rejects with the status
  unchanged if \<open>a\<close> is the first attempt and ends \<open>failed\<close> otherwise. In each case no
  prompt follows.
\<close>

theorem verification_retry_bounded:
  assumes "app_verificationState s \<noteq> None"
    and "attempt \<le> a"
    and "retriedUpTo world directory timeout maxRetries commands attempt a"
  shows
    "(\<exists>new. fixAttempts (app_trace (fst (executeVerification world directory timeout maxRetries commands attempt s)))
              = fixAttempts (app_trace s) @ new
          \<and> int (length new) \<le> max 0 (maxRetries - attempt)
          \<and> (\<forall>b\<in>set new. attempt \<le> b \<and> b < maxRetries))
   \<and> length (fixAttempts (app_trace (fst (executeVerification world directory timeout 3 commands 1 s))))
        \<le> length (fixAttempts (app_trace s)) + 2
   \<and> (\<exists>e\<ge>attempt. retriedUpTo world directory timeout maxRetries commands attempt e
          \<and> lastPass world directory timeout maxRetries commands e)
   \<and> (\<forall>k. passFailsAt directory timeout (world_proc world attempt) commands k
          \<and> attempt < maxRetries \<and> world_fix world attempt = None \<longrightarrow>
        executeVerification world directory timeout maxRetries commands attempt s =
          caught (executeVerification world directory timeout maxRetries
                    (map (\<lambda>c. c\<lparr>cmd_status := CmdPending\<rparr>) commands) (attempt + 1)
                    (setVerificationState (\<lambda>prev. prev
                         \<lparr>vs_commands := map (\<lambda>c. c\<lparr>cmd_status := CmdPending\<rparr>) commands,
                          vs_attempt := attempt + 1,
                          vs_status := VsRunning\<rparr>)
                      (effect (SubmitFix (failedAt directory timeout (world_proc world attempt) commands k)
                                 (res_output (resultAt directory timeout (world_proc world attempt) commands k))
                                 attempt)
                        (effect (LogAttemptingFix (cmd_command (commands ! k)))
                          (setVerificationState (\<lambda>prev. prev\<lparr>vs_status := VsFixing\<rparr>)
                             (fst (verificationPass directory timeout (world_proc world attempt) 0
                                     commands s))))))))
   \<and> (lastPass world directory timeout maxRetries commands a \<longrightarrow>
        ranCommands (app_trace (fst (executeVerification world directory timeout maxRetries commands attempt s)))
          = ranCommands (app_trace s) @
            concat (map (\<lambda>b. started directory timeout (world_proc world b)
                                (attemptCommands commands attempt b)) [attempt..a]))
   \<and> (passSucceeds directory timeout (world_proc world a) commands \<longrightarrow>
        fixAttempts (app_trace (fst (executeVerification world directory timeout maxRetries commands attempt s)))
          = fixAttempts (app_trace s) @ [attempt..a - 1]
        \<and> verificationStatus (fst (executeVerification world directory timeout maxRetries commands attempt s))
          = Some VsPassed
        \<and> app_phase (fst (executeVerification world directory timeout maxRetries commands attempt s))
          = Reviewing
        \<and> snd (executeVerification world directory timeout maxRetries commands attempt s) = None)
   \<and> (\<forall>k. passFailsAt directory timeout (world_proc world a) commands k \<and> maxRetries \<le> a \<longrightarrow>
        fixAttempts (app_trace (fst (executeVerification world directory timeout maxRetries commands attempt s)))
          = fixAttempts (app_trace s) @ [attempt..a - 1]
        \<and> verificationStatus (fst (executeVerification world directory timeout maxRetries commands attempt s))
          = Some VsFailed
        \<and> snd (executeVerification world directory timeout maxRetries commands attempt s) = None)
   \<and> (\<forall>k message. passFailsAt directory timeout (world_proc world a) commands k
          \<and> a < maxRetries \<and> world_fix world a = Some message \<longrightarrow>
        fixAttempts (app_trace (fst (executeVerification world directory timeout maxRetries commands attempt s)))
          = fixAttempts (app_trace s) @ [attempt..a]
        \<and> verificationStatus (fst (executeVerification world directory timeout maxRetries commands attempt s))
          = Some VsFailed
        \<and> snd (executeVerification world directory timeout maxRetries commands attempt s) = None)
   \<and> (\<forall>k. passRejectsAt directory timeout (world_proc world a) commands k \<longrightarrow>
        fixAttempts (app_trace (fst (executeVerification world directory timeout maxRetries commands attempt s)))
          = fixAttempts (app_trace s) @ [attempt..a - 1]
        \<and> (if a = attempt
            then snd (executeVerification world directory timeout maxRetries commands attempt s)
                   = Some (projl (runVerificationCommand (world_proc world a k) (commands ! k)
                                    directory timeout))
                 \<and> verificationStatus
                     (fst (executeVerification world directory timeout maxRetries commands attempt s))
                   = verificationStatus s
            else snd (executeVerification world directory timeout maxRetries commands attempt s) = None
                 \<and> verificationStatus
                     (fst (executeVerification world directory timeout maxRetries commands attempt s))
                   = Some VsFailed))"
proof (intro conjI allI impI)
  show "\<exists>new. fixAttempts (app_trace (fst (executeVerification world directory timeout maxRetries commands attempt s)))
              = fixAttempts (app_trace s) @ new
          \<and> int (length new) \<le> max 0 (maxRetries - attempt)
          \<and> (\<forall>b\<in>set new. attempt \<le> b \<and> b < maxRetries)"
    by (rule exec_fixAttempts_bound[OF assms(1)])
next
  from exec_fixAttempts_bound[OF assms(1), of world directory timeout 3 commands 1] obtain new where
    "fixAttempts (app_trace (fst (executeVerification world directory timeout 3 commands 1 s)))
       = fixAttempts (app_trace s) @ new"
    "int (length new) \<le> max 0 (3 - 1)"
    by blast
  then show "length (fixAttempts (app_trace (fst (executeVerification world directory timeout 3 commands 1 s))))
        \<le> length (fixAttempts (app_trace s)) + 2"
    by simp
next
  show "\<exists>e\<ge>attempt. retriedUpTo world directory timeout maxRetries commands attempt e
          \<and> lastPass world directory timeout maxRetries commands e"
    by (rule exists_last_pass)
next
  fix k
  assume h: "passFailsAt directory timeout (world_proc world attempt) commands k
          \<and> attempt < maxRetries \<and> world_fix world attempt = None"
  then have f: "passFailsAt directory timeout (world_proc world attempt) commands k"
    and lt: "attempt < maxRetries" and fx: "world_fix world attempt = None"
    by simp_all
  show "executeVerification world directory timeout maxRetries commands attempt s =
          caught (executeVerification world directory timeout maxRetries
                    (map (\<lambda>c. c\<lparr>cmd_status := CmdPending\<rparr>) commands) (attempt + 1)
                    (setVerificationState (\<lambda>prev. prev
                         \<lparr>vs_commands := map (\<lambda>c. c\<lparr>cmd_status := CmdPending\<rparr>) commands,
                          vs_attempt := attempt + 1,
                          vs_status := VsRunning\<rparr>)
                      (effect (SubmitFix (failedAt directory timeout (world_proc world attempt) commands k)
                                 (res_output (resultAt directory timeout (world_proc world attempt) commands k))
                                 attempt)
                        (effect (LogAttemptingFix (cmd_command (commands ! k)))
                          (setVerificationState (\<lambda>prev. prev\<lparr>vs_status := VsFixing\<rparr>)
                             (fst (verificationPass directory timeout (world_proc world attempt) 0
                                     commands s)))))))"
    by (simp only: exec_retry[OF f lt fx] caught_def)
next
  note run = exec_run[OF assms]
  assume "lastPass world directory timeout maxRetries commands a"
  then show "ranCommands (app_trace (fst (executeVerification world directory timeout maxRetries commands attempt s)))
          = ranCommands (app_trace s) @
            concat (map (\<lambda>b. started directory timeout (world_proc world b)
                                (attemptCommands commands attempt b)) [attempt..a])"
  proof (cases rule: lastPass_cases)
    case Succeeds
    from run(1)[OF Succeeds] show ?thesis by blast
  next
    case (Rejects k)
    from run(4)[OF Rejects] show ?thesis by blast
  next
    case (Exhausted k)
    from run(2)[OF Exhausted] show ?thesis by blast
  next
    case (FixThrows k message)
    from run(3)[OF FixThrows] show ?thesis by blast
  qed
next
  note run = exec_run(1)[OF assms]
  assume h: "passSucceeds directory timeout (world_proc world a) commands"
  from run[OF h]
  show "fixAttempts (app_trace (fst (executeVerification world directory timeout maxRetries commands attempt s)))
          = fixAttempts (app_trace s) @ [attempt..a - 1]"
    and "verificationStatus (fst (executeVerification world directory timeout maxRetries commands attempt s))
          = Some VsPassed"
    and "app_phase (fst (executeVerification world directory timeout maxRetries commands attempt s))
          = Reviewing"
    and "snd (executeVerification world directory timeout maxRetries commands attempt s) = None"
    by blast+
next
  fix k
  note run = exec_run(2)[OF assms]
  assume h: "passFailsAt directory timeout (world_proc world a) commands k \<and> maxRetries \<le> a"
  from run[of k] h
  show "fixAttempts (app_trace (fst (executeVerification world directory timeout maxRetries commands attempt s)))
          = fixAttempts (app_trace s) @ [attempt..a - 1]"
    and "verificationStatus (fst (executeVerification world directory timeout maxRetries commands attempt s))
          = Some VsFailed"
    and "snd (executeVerification world directory timeout maxRetries commands attempt s) = None"
    by blast+
next
  fix k message
  note run = exec_run(3)[OF assms]
  assume h: "passFailsAt directory timeout (world_proc world a) commands k
          \<and> a < maxRetries \<and> world_fix world a = Some message"
  from run[of k message] h
  show "fixAttempts (app_trace (fst (executeVerification world directory timeout maxRetries commands attempt s)))
          = fixAttempts (app_trace s) @ [attempt..a]"
    and "verificationStatus (fst (executeVerification world directory timeout maxRetries commands attempt s))
          = Some VsFailed"
    and "snd (executeVerification world directory timeout maxRetries commands attempt s) = None"
    by blast+
next
  fix k
  note run = exec_run(4)[OF assms]
  assume h: "passRejectsAt directory timeout (world_proc world a) commands k"
  from run[OF h]
  show "fixAttempts (app_trace (fst (executeVerification world directory timeout maxRetries commands attempt s)))
          = fixAttempts (app_trace s) @ [attempt..a - 1]"
    and "if a = attempt
            then snd (executeVerification world directory timeout maxRetries commands attempt s)
                   = Some (projl (runVerificationCommand (world_proc world a k) (commands ! k)
                                    directory timeout))
                 \<and> verificationStatus
                     (fst (executeVerification world directory timeout maxRetries commands attempt s))
                   = verificationStatus s
            else snd (executeVerification world directory timeout maxRetries commands attempt s) = None
                 \<and> verificationStatus
                     (fst (executeVerification world directory timeout maxRetries commands attempt s))
                   = Some VsFailed"
    by blast+
qed

text \<open>The build fails on every attempt: prompts after attempts 1 and 2, then failed. The build fails once: one prompt, then passed. The fix agent throws: one prompt, then failed.\<close>

theorem verification_retry_bounded_witness:
  "app_verificationState (startState buildTestLint 3) \<noteq> None
   \<and> retriedUpTo buildAlwaysFails ''/repo'' 300 3 buildTestLint 1 3
   \<and> passFailsAt ''/repo'' 300 (world_proc buildAlwaysFails 3) buildTestLint 0
   \<and> fixAttempts (app_trace (fst
        (executeVerification buildAlwaysFails ''/repo'' 300 3 buildTestLint 1 (startState buildTestLint 3))))
        = [1, 2]
   \<and> verificationStatus (fst
        (executeVerification buildAlwaysFails ''/repo'' 300 3 buildTestLint 1 (startState buildTestLint 3)))
        = Some VsFailed
   \<and> ranCommands (app_trace (fst
        (executeVerification buildAlwaysFails ''/repo'' 300 3 buildTestLint 1 (startState buildTestLint 3))))
        = [buildTestLint ! 0, buildTestLint ! 0, buildTestLint ! 0]
   \<and> retriedUpTo buildFailsOnce ''/repo'' 300 3 buildTestLint 1 2
   \<and> passSucceeds ''/repo'' 300 (world_proc buildFailsOnce 2) buildTestLint
   \<and> fixAttempts (app_trace (fst
        (executeVerification buildFailsOnce ''/repo'' 300 3 buildTestLint 1 (startState buildTestLint 3))))
        = [1]
   \<and> verificationStatus (fst
        (executeVerification buildFailsOnce ''/repo'' 300 3 buildTestLint 1 (startState buildTestLint 3)))
        = Some VsPassed
   \<and> app_phase (fst
        (executeVerification buildFailsOnce ''/repo'' 300 3 buildTestLint 1 (startState buildTestLint 3)))
        = Reviewing
   \<and> ranCommands (app_trace (fst
        (executeVerification buildFailsOnce ''/repo'' 300 3 buildTestLint 1 (startState buildTestLint 3))))
        = buildTestLint ! 0 # buildTestLint
   \<and> passFailsAt ''/repo'' 300 (world_proc fixThrows 1) buildTestLint 0
   \<and> world_fix fixThrows 1 = Some ''agent unavailable''
   \<and> fixAttempts (app_trace (fst
        (executeVerification fixThrows ''/repo'' 300 3 buildTestLint 1 (startState buildTestLint 3))))
        = [1]
   \<and> verificationStatus (fst
        (executeVerification fixThrows ''/repo'' 300 3 buildTestLint 1 (startState buildTestLint 3)))
        = Some VsFailed"
proof -
  let ?s = "startState buildTestLint 3"
  have st: "app_verificationState ?s \<noteq> None"
    by (simp add: startState_def)
  have tr: "app_trace ?s = []"
    by (simp add: startState_def)
  have pending: "map (\<lambda>c. c\<lparr>cmd_status := CmdPending\<rparr>) buildTestLint = buildTestLint"
    by (simp add: buildTestLint_def createCommand_def)
  have r1: "retriedUpTo buildAlwaysFails ''/repo'' 300 3 buildTestLint 1 3"
    by code_simp
  have f1: "passFailsAt ''/repo'' 300 (world_proc buildAlwaysFails 3) buildTestLint 0"
    by code_simp
  have l1: "lastPass buildAlwaysFails ''/repo'' 300 3 buildTestLint 3"
    by code_simp
  have s1: "\<And>b. started ''/repo'' 300 (world_proc buildAlwaysFails b) buildTestLint = [buildTestLint ! 0]"
    by (simp add: started_def buildAlwaysFails_def buildTestLint_def createCommand_def stops_def
        blocks_def rejects_def runVerificationCommand_def nodeSpawn_def exitsWith_def)
  have le1: "(1::int) \<le> 3" "(3::int) \<le> 3"
    by simp_all
  note t1 = verification_retry_bounded[OF st le1(1) r1]
  note e1 = t1[THEN conjunct2, THEN conjunct2, THEN conjunct2, THEN conjunct2, THEN conjunct2, THEN conjunct2, THEN conjunct1, THEN spec, THEN mp, OF conjI[OF f1 le1(2)]]
  note n1 = t1[THEN conjunct2, THEN conjunct2, THEN conjunct2, THEN conjunct2, THEN conjunct1, THEN mp, OF l1]
  have a1: "fixAttempts (app_trace (fst
        (executeVerification buildAlwaysFails ''/repo'' 300 3 buildTestLint 1 ?s))) = [1, 2]"
    and a2: "verificationStatus (fst
        (executeVerification buildAlwaysFails ''/repo'' 300 3 buildTestLint 1 ?s)) = Some VsFailed"
    using e1 by (simp_all add: tr upto_rec1)
  have a3: "ranCommands (app_trace (fst
        (executeVerification buildAlwaysFails ''/repo'' 300 3 buildTestLint 1 ?s)))
        = [buildTestLint ! 0, buildTestLint ! 0, buildTestLint ! 0]"
    using n1 by (simp add: tr upto_rec1 attemptCommands_def pending s1)
  have r2: "retriedUpTo buildFailsOnce ''/repo'' 300 3 buildTestLint 1 2"
    by code_simp
  have f2: "passSucceeds ''/repo'' 300 (world_proc buildFailsOnce 2) buildTestLint"
    by code_simp
  have l2: "lastPass buildFailsOnce ''/repo'' 300 3 buildTestLint 2"
    by code_simp
  have s2: "started ''/repo'' 300 (world_proc buildFailsOnce 1) buildTestLint = [buildTestLint ! 0]"
    "started ''/repo'' 300 (world_proc buildFailsOnce 2) buildTestLint = buildTestLint"
    by (simp_all add: started_def buildFailsOnce_def buildTestLint_def createCommand_def stops_def
        blocks_def rejects_def runVerificationCommand_def nodeSpawn_def exitsWith_def)
  have le2: "(1::int) \<le> 2"
    by simp
  note t2 = verification_retry_bounded[OF st le2 r2]
  note e2 = t2[THEN conjunct2, THEN conjunct2, THEN conjunct2, THEN conjunct2, THEN conjunct2, THEN conjunct1, THEN mp, OF f2]
  note n2 = t2[THEN conjunct2, THEN conjunct2, THEN conjunct2, THEN conjunct2, THEN conjunct1, THEN mp, OF l2]
  have b1: "fixAttempts (app_trace (fst
        (executeVerification buildFailsOnce ''/repo'' 300 3 buildTestLint 1 ?s))) = [1]"
    and b2: "verificationStatus (fst
        (executeVerification buildFailsOnce ''/repo'' 300 3 buildTestLint 1 ?s)) = Some VsPassed"
    and b3: "app_phase (fst
        (executeVerification buildFailsOnce ''/repo'' 300 3 buildTestLint 1 ?s)) = Reviewing"
    using e2 by (simp_all add: tr upto_rec1)
  have b4: "ranCommands (app_trace (fst
        (executeVerification buildFailsOnce ''/repo'' 300 3 buildTestLint 1 ?s)))
        = buildTestLint ! 0 # buildTestLint"
    using n2 by (simp add: tr upto_rec1 attemptCommands_def pending s2)
  have r3: "retriedUpTo fixThrows ''/repo'' 300 3 buildTestLint 1 1"
    by code_simp
  have f3: "passFailsAt ''/repo'' 300 (world_proc fixThrows 1) buildTestLint 0"
    by code_simp
  have x3: "world_fix fixThrows 1 = Some ''agent unavailable''"
    by (simp add: fixThrows_def)
  have le3: "(1::int) \<le> 1" "(1::int) < 3"
    by simp_all
  note t3 = verification_retry_bounded[OF st le3(1) r3]
  note e3 = t3[THEN conjunct2, THEN conjunct2, THEN conjunct2, THEN conjunct2, THEN conjunct2, THEN conjunct2, THEN conjunct2, THEN conjunct1, THEN spec, THEN spec, THEN mp, OF conjI[OF f3 conjI[OF le3(2) x3]]]
  have c1: "fixAttempts (app_trace (fst
        (executeVerification fixThrows ''/repo'' 300 3 buildTestLint 1 ?s))) = [1]"
    and c2: "verificationStatus (fst
        (executeVerification fixThrows ''/repo'' 300 3 buildTestLint 1 ?s)) = Some VsFailed"
    using e3 by (simp_all add: tr upto_rec1)
  show ?thesis
    using st r1 f1 a1 a2 a3 r2 f2 b1 b2 b3 b4 f3 x3 c1 c2 by (intro conjI)
qed

text \<open>
  Claim C2 (the first required failure halts the pass). Let the command at index \<open>k\<close> be
  the first that is required and fails, with no \<^verbatim>\<open>spawn\<close> throwing before it, in a pass
  that starts with every command pending. Then the pass starts a process for the commands
  up to \<open>k\<close> in the order of the list and for no other; the commands before \<open>k\<close> end passed
  or skipped, the one at \<open>k\<close> failed, and every later one is still pending; the locals
  hold the failure; and \<open>executeVerification\<close> goes on with the fix-retry branch: below
  \<open>maxRetries\<close> the next effects are the log line and the submission of the fix prompt for
  that command, otherwise the result is the failed state.
\<close>

theorem first_required_failure_halts_pass:
  assumes "k < length commands"
    and "blocks directory timeout (commands ! k) (world_proc world attempt k)"
    and "\<forall>m<k. \<not> blocks directory timeout (commands ! m) (world_proc world attempt m)
               \<and> \<not> rejects directory timeout (commands ! m) (world_proc world attempt m)"
    and "commandStatuses s = replicate (length commands) CmdPending"
  shows "ranCommands (app_trace (fst (verificationPass directory timeout (world_proc world attempt) 0 commands s)))
           = ranCommands (app_trace s) @ take (Suc k) commands
       \<and> commandStatuses (fst (verificationPass directory timeout (world_proc world attempt) 0 commands s))
           = map (\<lambda>m. if res_success (resultAt directory timeout (world_proc world attempt) commands m)
                       then CmdPassed else CmdSkipped) [0..<k]
             @ CmdFailed # replicate (length commands - Suc k) CmdPending
       \<and> (\<forall>j. k < j \<and> j < length commands \<longrightarrow>
             commandStatuses (fst (verificationPass directory timeout (world_proc world attempt) 0 commands s)) ! j
               = CmdPending)
       \<and> snd (verificationPass directory timeout (world_proc world attempt) 0 commands s) =
           Inr \<lparr>allPassed = False,
                failedCommand = Some ((commands ! k)
                  \<lparr>cmd_exitCode := Some (res_exitCode
                      (resultAt directory timeout (world_proc world attempt) commands k)),
                   cmd_output := Some (res_output
                      (resultAt directory timeout (world_proc world attempt) commands k))\<rparr>),
                failedOutput = res_output (resultAt directory timeout (world_proc world attempt) commands k)\<rparr>
       \<and> (attempt < maxRetries \<longrightarrow>
             prefix (app_trace (fst (verificationPass directory timeout (world_proc world attempt) 0 commands s)) @
                [LogAttemptingFix (cmd_command (commands ! k)),
                 SubmitFix ((commands ! k)
                   \<lparr>cmd_exitCode := Some (res_exitCode
                       (resultAt directory timeout (world_proc world attempt) commands k)),
                    cmd_output := Some (res_output
                       (resultAt directory timeout (world_proc world attempt) commands k))\<rparr>)
                   (res_output (resultAt directory timeout (world_proc world attempt) commands k)) attempt])
               (app_trace (fst (executeVerification world directory timeout maxRetries commands attempt s))))
       \<and> (maxRetries \<le> attempt \<longrightarrow>
             executeVerification world directory timeout maxRetries commands attempt s =
               (setVerificationState (\<lambda>prev. prev\<lparr>vs_status := VsFailed\<rparr>)
                  (effect (LogFailedAfter attempt)
                     (fst (verificationPass directory timeout (world_proc world attempt) 0 commands s))),
                None))"
proof -
  let ?procs = "world_proc world attempt"
  let ?pass = "verificationPass directory timeout ?procs 0 commands s"
  let ?res = "resultAt directory timeout ?procs commands"
  have f: "passFailsAt directory timeout ?procs commands k"
    using assms(1,2,3) by (simp add: passFailsAt_def list_all_iff stops_def)
  note fb = pass_fails[OF f, of s]
  have ran: "ranCommands (app_trace (fst ?pass)) = ranCommands (app_trace s) @ take (Suc k) commands"
    by (rule fb(2))
  have loc: "snd ?pass =
           Inr \<lparr>allPassed = False,
                failedCommand = Some ((commands ! k)
                  \<lparr>cmd_exitCode := Some (res_exitCode (?res k)),
                   cmd_output := Some (res_output (?res k))\<rparr>),
                failedOutput = res_output (?res k)\<rparr>"
    using fb(1) by (simp add: failedAt_def)
  have len: "length (commandStatuses (fst ?pass)) = length commands"
    by (simp add: pass_statuses_length assms(4))
  have after: "\<forall>j. k < j \<and> j < length commands \<longrightarrow> commandStatuses (fst ?pass) ! j = CmdPending"
    using fb(3) assms(4) by simp
  have atk: "commandStatuses (fst ?pass) ! k = CmdFailed"
    using fb(4) assms(1,4) by simp
  have before: "\<forall>m<k. commandStatuses (fst ?pass) ! m =
       (if res_success (?res m) then CmdPassed else CmdSkipped)"
    using fb(5) assms(1,4) by simp
  have statuses: "commandStatuses (fst ?pass)
           = map (\<lambda>m. if res_success (?res m) then CmdPassed else CmdSkipped) [0..<k]
             @ CmdFailed # replicate (length commands - Suc k) CmdPending"
  proof (rule nth_equalityI)
    show "length (commandStatuses (fst ?pass)) =
          length (map (\<lambda>m. if res_success (?res m) then CmdPassed else CmdSkipped) [0..<k]
             @ CmdFailed # replicate (length commands - Suc k) CmdPending)"
      using len assms(1) by simp
  next
    fix j assume "j < length (commandStatuses (fst ?pass))"
    then have j: "j < length commands" using len by simp
    consider "j < k" | "j = k" | "k < j" by linarith
    then show "commandStatuses (fst ?pass) ! j =
          (map (\<lambda>m. if res_success (?res m) then CmdPassed else CmdSkipped) [0..<k]
             @ CmdFailed # replicate (length commands - Suc k) CmdPending) ! j"
    proof cases
      case 1
      then show ?thesis using before by (simp add: nth_append)
    next
      case 2
      then show ?thesis using atk by (simp add: nth_append)
    next
      case 3
      then show ?thesis using after j by (simp add: nth_append nth_Cons')
    qed
  qed
  have fixb: "attempt < maxRetries \<Longrightarrow>
             prefix (app_trace (fst ?pass) @
                [LogAttemptingFix (cmd_command (commands ! k)),
                 SubmitFix ((commands ! k)
                   \<lparr>cmd_exitCode := Some (res_exitCode (?res k)),
                    cmd_output := Some (res_output (?res k))\<rparr>)
                   (res_output (?res k)) attempt])
               (app_trace (fst (executeVerification world directory timeout maxRetries commands attempt s)))"
    using exec_enters_fix[OF f, of maxRetries s] by (simp add: failedAt_def)
  have ex: "maxRetries \<le> attempt \<Longrightarrow>
             executeVerification world directory timeout maxRetries commands attempt s =
               (setVerificationState (\<lambda>prev. prev\<lparr>vs_status := VsFailed\<rparr>)
                  (effect (LogFailedAfter attempt) (fst ?pass)), None)"
    by (rule exec_exhausted[OF f])
  show ?thesis
    using ran statuses after loc fixb ex by blast
qed

text \<open>Build, test, lint, where the build fails: test and lint stay pending.\<close>

theorem first_required_failure_halts_pass_witness:
  "blocks ''/repo'' 300 (buildTestLint ! 0) (world_proc buildAlwaysFails 1 0)
   \<and> commandStatuses (startState buildTestLint 3) = replicate (length buildTestLint) CmdPending
   \<and> ranCommands (app_trace (fst (verificationPass ''/repo'' 300 (world_proc buildAlwaysFails 1) 0
         buildTestLint (startState buildTestLint 3)))) = [buildTestLint ! 0]
   \<and> commandStatuses (fst (verificationPass ''/repo'' 300 (world_proc buildAlwaysFails 1) 0
         buildTestLint (startState buildTestLint 3))) = [CmdFailed, CmdPending, CmdPending]"
proof -
  have h1: "0 < length buildTestLint"
    by (simp add: buildTestLint_def)
  have h2: "blocks ''/repo'' 300 (buildTestLint ! 0) (world_proc buildAlwaysFails 1 0)"
    by code_simp
  have h3: "\<forall>m<0. \<not> blocks ''/repo'' 300 (buildTestLint ! m) (world_proc buildAlwaysFails 1 m)
                   \<and> \<not> rejects ''/repo'' 300 (buildTestLint ! m) (world_proc buildAlwaysFails 1 m)"
    by simp
  have h4: "commandStatuses (startState buildTestLint 3) = replicate (length buildTestLint) CmdPending"
    by (simp add: startState_def commandStatuses_def buildTestLint_def createCommand_def)
  have tr: "app_trace (startState buildTestLint 3) = []"
    by (simp add: startState_def)
  have len: "length buildTestLint = 3"
    by (simp add: buildTestLint_def)
  have t1: "take (Suc 0) buildTestLint = [buildTestLint ! 0]"
    by (simp add: buildTestLint_def)
  note t = first_required_failure_halts_pass[OF h1 h2 h3 h4, of 3]
  have r: "ranCommands (app_trace (fst (verificationPass ''/repo'' 300 (world_proc buildAlwaysFails 1) 0
         buildTestLint (startState buildTestLint 3)))) = [buildTestLint ! 0]"
    using t[THEN conjunct1] by (simp add: tr t1)
  have c: "commandStatuses (fst (verificationPass ''/repo'' 300 (world_proc buildAlwaysFails 1) 0
         buildTestLint (startState buildTestLint 3))) = [CmdFailed, CmdPending, CmdPending]"
    using t[THEN conjunct2, THEN conjunct1] by (simp add: len numeral_3_eq_3)
  show ?thesis
    using h2 h4 r c by (intro conjI)
qed

text \<open>
  Claim C3 (optional failures never block). In a pass over commands aligned with the
  verification state in which no \<^verbatim>\<open>spawn\<close> throws, \<open>allPassed\<close> is false exactly when some
  required command fails, so a failing optional command never clears it; a failing
  optional command that the loop reaches is marked skipped and the loop goes on to the
  next command; and when every failing command is optional, \<open>executeVerification\<close> starts
  a process for every command, submits no fix prompt, leaves each command passed or
  skipped, sets the status to \<open>passed\<close> and starts the review.
\<close>

theorem optional_failures_never_block:
  assumes "length (commandStatuses s) = length commands"
    and "app_verificationState s \<noteq> None"
    and "\<forall>k<length commands. \<not> rejects directory timeout (commands ! k) (world_proc world attempt k)"
  shows "(\<exists>locals. snd (verificationPass directory timeout (world_proc world attempt) 0 commands s) = Inr locals
            \<and> (allPassed locals \<longleftrightarrow>
                 (\<forall>k<length commands.
                    res_success (resultAt directory timeout (world_proc world attempt) commands k)
                    \<or> cmd_optional (commands ! k))))
       \<and> (\<forall>k<length commands.
             cmd_optional (commands ! k)
             \<and> \<not> res_success (resultAt directory timeout (world_proc world attempt) commands k)
             \<and> (\<forall>m<k. \<not> blocks directory timeout (commands ! m) (world_proc world attempt m)) \<longrightarrow>
             commandStatuses (fst (verificationPass directory timeout (world_proc world attempt) 0 commands s)) ! k
               = CmdSkipped
             \<and> prefix (ranCommands (app_trace s) @ take (Suc (Suc k)) commands)
                  (ranCommands (app_trace
                     (fst (verificationPass directory timeout (world_proc world attempt) 0 commands s)))))
       \<and> ((\<forall>k<length commands.
              res_success (resultAt directory timeout (world_proc world attempt) commands k)
              \<or> cmd_optional (commands ! k)) \<longrightarrow>
             verificationStatus (fst (executeVerification world directory timeout maxRetries commands attempt s))
               = Some VsPassed
             \<and> app_phase (fst (executeVerification world directory timeout maxRetries commands attempt s))
               = Reviewing
             \<and> snd (executeVerification world directory timeout maxRetries commands attempt s) = None
             \<and> fixAttempts (app_trace (fst (executeVerification world directory timeout maxRetries commands attempt s)))
                 = fixAttempts (app_trace s)
             \<and> ranCommands (app_trace (fst (executeVerification world directory timeout maxRetries commands attempt s)))
                 = ranCommands (app_trace s) @ commands
             \<and> commandStatuses (fst (executeVerification world directory timeout maxRetries commands attempt s))
                 = map (\<lambda>k. if res_success (resultAt directory timeout (world_proc world attempt) commands k)
                             then CmdPassed else CmdSkipped) [0..<length commands])"
proof (intro conjI allI impI)
  let ?procs = "world_proc world attempt"
  let ?pass = "verificationPass directory timeout ?procs 0 commands s"
  let ?res = "resultAt directory timeout ?procs commands"
  have nb: "\<not> blocks directory timeout (commands ! k) (?procs k) \<longleftrightarrow>
              res_success (?res k) \<or> cmd_optional (commands ! k)" if "k < length commands" for k
    using assms(3) that by (simp add: not_blocks_iff)
  show "\<exists>locals. snd ?pass = Inr locals
            \<and> (allPassed locals \<longleftrightarrow> (\<forall>k<length commands. res_success (?res k) \<or> cmd_optional (commands ! k)))"
  proof (cases rule: pass_end_cases[of directory timeout ?procs commands])
    case Succeeds
    then have "\<forall>k<length commands. \<not> blocks directory timeout (commands ! k) (?procs k)"
      by (simp add: passSucceeds_def list_all_iff stops_def)
    then have "\<forall>k<length commands. res_success (?res k) \<or> cmd_optional (commands ! k)"
      using nb by blast
    then show ?thesis
      by (simp add: pass_succeeds(1)[OF Succeeds])
  next
    case (Fails k)
    then have "k < length commands" "blocks directory timeout (commands ! k) (?procs k)"
      by (simp_all add: passFailsAt_def)
    then have "\<not> (\<forall>k<length commands. res_success (?res k) \<or> cmd_optional (commands ! k))"
      using nb by blast
    then show ?thesis
      by (simp add: pass_fails(1)[OF Fails])
  next
    case (Rejects k)
    then show ?thesis
      using assms(3) by (auto simp: passRejectsAt_def)
  qed
next
  let ?procs = "world_proc world attempt"
  let ?pass = "verificationPass directory timeout ?procs 0 commands s"
  let ?res = "resultAt directory timeout ?procs commands"
  fix k
  assume k: "k < length commands"
  assume h: "cmd_optional (commands ! k) \<and> \<not> res_success (?res k)
             \<and> (\<forall>m<k. \<not> blocks directory timeout (commands ! m) (?procs m))"
  have nbk: "\<not> blocks directory timeout (commands ! k) (?procs k)"
    using h assms(3) k by (simp add: not_blocks_iff)
  have ns: "\<forall>m\<le>k. \<not> stops directory timeout (commands ! m) (?procs m)"
    using h nbk assms(3) k by (auto simp: stops_def le_less)
  have "commandStatuses (fst ?pass) ! k = CmdSkipped
        \<and> prefix (ranCommands (app_trace s) @ take (Suc (Suc k)) commands)
             (ranCommands (app_trace (fst ?pass)))"
  proof (cases rule: pass_end_cases[of directory timeout ?procs commands])
    case Succeeds
    from pass_succeeds(2,3)[OF Succeeds, of s] k h assms(1) show ?thesis
      by (simp add: take_is_prefix)
  next
    case (Fails j)
    then have j: "j < length commands" "stops directory timeout (commands ! j) (?procs j)"
      by (simp_all add: passFailsAt_def stops_def)
    have kj: "k < j"
      using ns j(2) by (meson not_le_imp_less)
    from pass_fails(2,5)[OF Fails, of s] kj k h assms(1) show ?thesis
      by (simp add: take_prefix_mono)
  next
    case (Rejects j)
    then show ?thesis
      using assms(3) by (auto simp: passRejectsAt_def)
  qed
  then show "commandStatuses (fst ?pass) ! k = CmdSkipped"
    and "prefix (ranCommands (app_trace s) @ take (Suc (Suc k)) commands)
           (ranCommands (app_trace (fst ?pass)))"
    by simp_all
next
  let ?procs = "world_proc world attempt"
  let ?pass = "verificationPass directory timeout ?procs 0 commands s"
  let ?res = "resultAt directory timeout ?procs commands"
  let ?exec = "executeVerification world directory timeout maxRetries commands attempt s"
  assume h: "\<forall>k<length commands. res_success (?res k) \<or> cmd_optional (commands ! k)"
  have ps: "passSucceeds directory timeout ?procs commands"
    using h assms(3) by (simp add: passSucceeds_def list_all_iff stops_def not_blocks_iff)
  note e = exec_succeeds[OF ps, of maxRetries s]
  note p = pass_succeeds[OF ps, of s]
  show "verificationStatus (fst ?exec) = Some VsPassed"
    using assms(2) by (simp add: e pass_verificationStatus verificationStatus_Some)
  show "app_phase (fst ?exec) = Reviewing"
    by (simp add: e)
  show "snd ?exec = None"
    by (simp add: e)
  show "fixAttempts (app_trace (fst ?exec)) = fixAttempts (app_trace s)"
    by (simp add: e pass_fixAttempts)
  show "ranCommands (app_trace (fst ?exec)) = ranCommands (app_trace s) @ commands"
    by (simp add: e p(2))
  show "commandStatuses (fst ?exec)
          = map (\<lambda>k. if res_success (?res k) then CmdPassed else CmdSkipped) [0..<length commands]"
  proof (rule nth_equalityI)
    show "length (commandStatuses (fst ?exec)) =
          length (map (\<lambda>k. if res_success (?res k) then CmdPassed else CmdSkipped) [0..<length commands])"
      by (simp add: e pass_statuses_length assms(1))
  next
    fix j
    assume "j < length (commandStatuses (fst ?exec))"
    then have j: "j < length commands"
      by (simp add: e pass_statuses_length assms(1))
    then show "commandStatuses (fst ?exec) ! j =
          map (\<lambda>k. if res_success (?res k) then CmdPassed else CmdSkipped) [0..<length commands] ! j"
      using p(3) assms(1) by (simp add: e)
  qed
qed

text \<open>Build and lint, where the optional lint fails: the final status is passed.\<close>

theorem optional_failures_never_block_witness:
  "cmd_optional (buildLint ! 1)
   \<and> \<not> res_success (resultAt ''/repo'' 300 (world_proc lintFails 1) buildLint 1)
   \<and> \<not> rejects ''/repo'' 300 (buildLint ! 0) (world_proc lintFails 1 0)
   \<and> \<not> rejects ''/repo'' 300 (buildLint ! 1) (world_proc lintFails 1 1)
   \<and> snd (verificationPass ''/repo'' 300 (world_proc lintFails 1) 0 buildLint (startState buildLint 3))
        = Inr \<lparr>allPassed = True, failedCommand = None, failedOutput = []\<rparr>
   \<and> commandStatuses (fst (verificationPass ''/repo'' 300 (world_proc lintFails 1) 0 buildLint
        (startState buildLint 3))) ! 1 = CmdSkipped
   \<and> verificationStatus (fst (executeVerification lintFails ''/repo'' 300 3 buildLint 1 (startState buildLint 3)))
        = Some VsPassed
   \<and> app_phase (fst (executeVerification lintFails ''/repo'' 300 3 buildLint 1 (startState buildLint 3)))
        = Reviewing
   \<and> fixAttempts (app_trace (fst
        (executeVerification lintFails ''/repo'' 300 3 buildLint 1 (startState buildLint 3)))) = []
   \<and> commandStatuses (fst (executeVerification lintFails ''/repo'' 300 3 buildLint 1 (startState buildLint 3)))
        = [CmdPassed, CmdSkipped]"
proof -
  let ?pass = "verificationPass ''/repo'' 300 (world_proc lintFails 1) 0 buildLint (startState buildLint 3)"
  have a1: "length (commandStatuses (startState buildLint 3)) = length buildLint"
    by (simp add: startState_def commandStatuses_def)
  have a2: "app_verificationState (startState buildLint 3) \<noteq> None"
    by (simp add: startState_def)
  have len: "length buildLint = 2"
    by (simp add: buildLint_def)
  have r0: "res_success (resultAt ''/repo'' 300 (world_proc lintFails 1) buildLint 0)"
    and r1: "\<not> res_success (resultAt ''/repo'' 300 (world_proc lintFails 1) buildLint 1)"
    and o1: "cmd_optional (buildLint ! 1)"
    and nr0: "\<not> rejects ''/repo'' 300 (buildLint ! 0) (world_proc lintFails 1 0)"
    and nr1: "\<not> rejects ''/repo'' 300 (buildLint ! 1) (world_proc lintFails 1 1)"
    and nb0: "\<not> blocks ''/repo'' 300 (buildLint ! 0) (world_proc lintFails 1 0)"
    by code_simp+
  have a3: "\<forall>k<length buildLint. \<not> rejects ''/repo'' 300 (buildLint ! k) (world_proc lintFails 1 k)"
    using nr0 nr1 by (simp add: len less_Suc_eq numeral_2_eq_2)
  have all: "\<forall>k<length buildLint. res_success (resultAt ''/repo'' 300 (world_proc lintFails 1) buildLint k)
                \<or> cmd_optional (buildLint ! k)"
    using r0 o1 by (simp add: len less_Suc_eq numeral_2_eq_2)
  have nb: "\<forall>m<1. \<not> blocks ''/repo'' 300 (buildLint ! m) (world_proc lintFails 1 m)"
    using nb0 by simp
  have tr: "app_trace (startState buildLint 3) = []"
    by (simp add: startState_def)
  have upt: "[0..<2] = [0, Suc 0]"
    by (simp add: upt_rec)
  note inst = optional_failures_never_block[OF a1 a2 a3, of 3]
  from inst[THEN conjunct1] all obtain locals where
    "snd ?pass = Inr locals" "allPassed locals"
    by blast
  moreover have "snd ?pass = Inr locals \<Longrightarrow> allPassed locals \<Longrightarrow>
      snd ?pass = Inr \<lparr>allPassed = True, failedCommand = None, failedOutput = []\<rparr>"
    by code_simp
  ultimately have p1: "snd ?pass = Inr \<lparr>allPassed = True, failedCommand = None, failedOutput = []\<rparr>"
    by blast
  from inst[THEN conjunct2, THEN conjunct1] o1 r1 nb have p2:
    "commandStatuses (fst ?pass) ! 1 = CmdSkipped"
    by (simp add: len)
  from inst[THEN conjunct2, THEN conjunct2, THEN mp, OF all] have p3:
    "verificationStatus (fst (executeVerification lintFails ''/repo'' 300 3 buildLint 1 (startState buildLint 3)))
       = Some VsPassed"
    "app_phase (fst (executeVerification lintFails ''/repo'' 300 3 buildLint 1 (startState buildLint 3)))
       = Reviewing"
    "fixAttempts (app_trace (fst
       (executeVerification lintFails ''/repo'' 300 3 buildLint 1 (startState buildLint 3)))) = []"
    "commandStatuses (fst (executeVerification lintFails ''/repo'' 300 3 buildLint 1 (startState buildLint 3)))
       = [CmdPassed, CmdSkipped]"
    using r0 r1 by (simp_all add: tr len upt)
  show ?thesis
    using o1 r1 nr0 nr1 p1 p2 p3 by (intro conjI)
qed

text \<open>
  Claim C5 (task derivation is exact and one to one). The tasks \<open>handleProceed\<close>
  generates are, in order, one per finding that is selected and whose category is not
  hint-only: as many tasks as such findings, each with the id \<open>task-\<close> followed by the
  finding's id and with the finding's id as \<open>slopItemId\<close>.
\<close>

theorem task_derivation_exact:
  "length (handleProceed slopItems) =
     length (filter (\<lambda>item. item_selected item \<and> item_category item \<notin> set HINT_ONLY_CATEGORIES) slopItems)
   \<and> handleProceed slopItems =
       map (\<lambda>item. \<lparr>task_id = ''task-'' @ item_id item,
                     task_title = ''Fix: '' @ item_title item,
                     task_description = item_description item,
                     task_status = TaskPending,
                     task_file = Some (item_file item),
                     task_slopItemId = item_id item\<rparr>)
         (filter (\<lambda>item. item_selected item \<and> item_category item \<noteq> ''ui-slop'') slopItems)"
proof -
  have sel: "proceedSelectedItems slopItems =
      filter (\<lambda>item. item_selected item \<and> item_category item \<noteq> ''ui-slop'') slopItems"
    by (simp add: proceedSelectedItems_def HINT_ONLY_CATEGORIES_def)
  have gen: "concat (map generateTasksForSlopItem xs) =
      map (\<lambda>item. \<lparr>task_id = ''task-'' @ item_id item,
                     task_title = ''Fix: '' @ item_title item,
                     task_description = item_description item,
                     task_status = TaskPending,
                     task_file = Some (item_file item),
                     task_slopItemId = item_id item\<rparr>) xs" for xs
    by (induction xs) (simp_all add: generateTasksForSlopItem_def)
  show ?thesis
    unfolding handleProceed_def gen
    by (simp add: sel HINT_ONLY_CATEGORIES_def)
qed

text \<open>
  Claim C8 (the executor never rejects) does not hold of the code: \<^verbatim>\<open>spawn\<close> is called
  inside the executor of the promise with no \<^verbatim>\<open>try\<close>, so an exception of \<^verbatim>\<open>spawn\<close> rejects
  the promise. With a timeout of \<open>-1\<close>, which the configuration file can hold and for
  which the \<^verbatim>\<open>spawn\<close> of Node throws, \<open>runVerificationCommand\<close> rejects; with 300 it
  resolves, and an \<^verbatim>\<open>error\<close> event of the child process, the other way a command cannot
  start, resolves to a failed result with exit code 1. \<open>runVerification\<close> with that timeout
  rejects at the first command, which stays marked as running under the status
  \<open>running\<close>, with nothing logged. The rest of the claim, for a \<^verbatim>\<open>spawn\<close> that returns, is
  the lemma \<open>runVerificationCommand_resolves\<close>.
\<close>

theorem runVerificationCommand_rejects_when_spawn_throws:
  "runVerificationCommand (nodeSpawn (exitsWith 0))
     (createCommand ''build'' ''npm run build'' Build False) ''/repo'' (- 1)
     = Inl ''ERR_OUT_OF_RANGE''
   \<and> runVerificationCommand (nodeSpawn (exitsWith 0))
       (createCommand ''build'' ''npm run build'' Build False) ''/repo'' 300
     = Inr \<lparr>res_command = createCommand ''build'' ''npm run build'' Build False,
            res_success = True, res_output = ''out'', res_exitCode = 0, res_duration = 5\<rparr>
   \<and> runVerificationCommand (nodeSpawn \<lparr>proc_event = Error ''spawn ENOENT'', proc_captured = [],
                                         proc_elapsed = 1\<rparr>)
       (createCommand ''build'' ''npm run build'' Build False) ''/repo'' 300
     = Inr \<lparr>res_command = createCommand ''build'' ''npm run build'' Build False,
            res_success = False, res_output = ''Failed to run command: spawn ENOENT\<newline>'',
            res_exitCode = 1, res_duration = 1\<rparr>
   \<and> snd (runVerification lintFails ''/repo'' (- 1) 3 buildLint
            \<lparr>app_phase = Executing, app_verificationState = None, app_trace = []\<rparr>)
     = Some ''ERR_OUT_OF_RANGE''
   \<and> commandStatuses (fst (runVerification lintFails ''/repo'' (- 1) 3 buildLint
            \<lparr>app_phase = Executing, app_verificationState = None, app_trace = []\<rparr>))
     = [CmdRunning, CmdPending]
   \<and> verificationStatus (fst (runVerification lintFails ''/repo'' (- 1) 3 buildLint
            \<lparr>app_phase = Executing, app_verificationState = None, app_trace = []\<rparr>))
     = Some VsRunning
   \<and> app_trace (fst (runVerification lintFails ''/repo'' (- 1) 3 buildLint
            \<lparr>app_phase = Executing, app_verificationState = None, app_trace = []\<rparr>))
     = []"
  by code_simp

text \<open>
  Claim C4 (hint-only findings are never selectable) does not hold of the code: the
  select-all key has no test for the category. At a list with one hint-only finding that
  is not selected, the key \<^verbatim>\<open>a\<close> of \<open>SlopList\<close> selects it, where the space bar leaves it
  alone; the proceed transition still makes no task of it.
\<close>

theorem select_all_selects_hint_only:
  "item_category hintFinding \<in> set HINT_ONLY_CATEGORIES
   \<and> \<not> item_selected hintFinding
   \<and> map item_selected (slopListInput KeyA 0 [hintFinding]) = [True]
   \<and> slopListInput KeySpace 0 [hintFinding] = [hintFinding]
   \<and> handleProceed (slopListInput KeyA 0 [hintFinding]) = []"
  by (simp add: hintFinding_def HINT_ONLY_CATEGORIES_def slopListInput_def handleSelectAll_def
        itemAt_def handleProceed_def proceedSelectedItems_def)

text \<open>
  Claim C6, amended (discovery). The result of \<open>discoverVerificationCommands\<close> is what
  the first manifest that yields a command yields by itself, in the order package.json,
  Cargo.toml, pyproject.toml, go.mod, Makefile, and nothing when none does; the types of
  each manifest's commands follow that manifest's own fixed order (package.json: build,
  typecheck, test, lint; Cargo.toml and go.mod: build, test, lint; pyproject.toml: test,
  typecheck, lint; Makefile: build, test, lint, typecheck); a command is optional exactly
  when its type is typecheck or lint, and starts pending; and the sources name the
  winning manifest alone.
\<close>

theorem discovery_first_ecosystem_own_order:
  "discoverVerificationCommands p =
     (if dr_commands (checkPackageJson p nothingFound) \<noteq> [] then checkPackageJson p nothingFound
      else if dr_commands (checkCargoToml p nothingFound) \<noteq> [] then checkCargoToml p nothingFound
      else if dr_commands (checkPyproject p nothingFound) \<noteq> [] then checkPyproject p nothingFound
      else if dr_commands (checkGoMod p nothingFound) \<noteq> [] then checkGoMod p nothingFound
      else checkMakefile p nothingFound)
   \<and> subseq (map cmd_type (dr_commands (checkPackageJson p nothingFound))) [Build, Typecheck, Test, Lint]
   \<and> subseq (map cmd_type (dr_commands (checkCargoToml p nothingFound))) [Build, Test, Lint]
   \<and> subseq (map cmd_type (dr_commands (checkPyproject p nothingFound))) [Test, Typecheck, Lint]
   \<and> subseq (map cmd_type (dr_commands (checkGoMod p nothingFound))) [Build, Test, Lint]
   \<and> subseq (map cmd_type (dr_commands (checkMakefile p nothingFound))) [Build, Test, Lint, Typecheck]
   \<and> (\<forall>c\<in>set (dr_commands (discoverVerificationCommands p)).
         cmd_optional c = (cmd_type c = Typecheck \<or> cmd_type c = Lint) \<and> cmd_status c = CmdPending)
   \<and> dr_sources (discoverVerificationCommands p) =
       (if dr_commands (checkPackageJson p nothingFound) \<noteq> [] then [''package.json'']
        else if dr_commands (checkCargoToml p nothingFound) \<noteq> [] then [''Cargo.toml'']
        else if dr_commands (checkPyproject p nothingFound) \<noteq> [] then [''pyproject.toml'']
        else if dr_commands (checkGoMod p nothingFound) \<noteq> [] then [''go.mod'']
        else if dr_commands (checkMakefile p nothingFound) \<noteq> [] then [''Makefile'']
        else [])"
proof (intro conjI ballI)
  show "discoverVerificationCommands p =
     (if dr_commands (checkPackageJson p nothingFound) \<noteq> [] then checkPackageJson p nothingFound
      else if dr_commands (checkCargoToml p nothingFound) \<noteq> [] then checkCargoToml p nothingFound
      else if dr_commands (checkPyproject p nothingFound) \<noteq> [] then checkPyproject p nothingFound
      else if dr_commands (checkGoMod p nothingFound) \<noteq> [] then checkGoMod p nothingFound
      else checkMakefile p nothingFound)"
    by (rule discover_first_ecosystem)
next
  fix c assume "c \<in> set (dr_commands (discoverVerificationCommands p))"
  then have "c \<in> set (dr_commands (checkPackageJson p nothingFound))
      \<or> c \<in> set (dr_commands (checkCargoToml p nothingFound))
      \<or> c \<in> set (dr_commands (checkPyproject p nothingFound))
      \<or> c \<in> set (dr_commands (checkGoMod p nothingFound))
      \<or> c \<in> set (dr_commands (checkMakefile p nothingFound))"
    by (simp only: discover_first_ecosystem split: if_splits) simp_all
  then show "cmd_optional c = (cmd_type c = Typecheck \<or> cmd_type c = Lint)"
    and "cmd_status c = CmdPending"
    using flags_packageJson flags_cargoToml flags_pyproject flags_goMod flags_makefile by blast+
next
  show "dr_sources (discoverVerificationCommands p) =
       (if dr_commands (checkPackageJson p nothingFound) \<noteq> [] then [''package.json'']
        else if dr_commands (checkCargoToml p nothingFound) \<noteq> [] then [''Cargo.toml'']
        else if dr_commands (checkPyproject p nothingFound) \<noteq> [] then [''pyproject.toml'']
        else if dr_commands (checkGoMod p nothingFound) \<noteq> [] then [''go.mod'']
        else if dr_commands (checkMakefile p nothingFound) \<noteq> [] then [''Makefile'']
        else [])"
    by (simp add: discover_first_ecosystem sources_packageJson sources_cargoToml sources_pyproject
          sources_goMod sources_makefile)
qed (rule order_packageJson order_cargoToml order_pyproject order_goMod order_makefile)+

text \<open>A directory with a package.json and a Cargo.toml: the package.json commands alone.\<close>

theorem discovery_first_ecosystem_own_order_witness:
  "createCommand ''lint'' ''npm run lint'' Lint True
     \<in> set (dr_commands (discoverVerificationCommands nodeAndRustProject))
   \<and> cmd_optional (createCommand ''lint'' ''npm run lint'' Lint True)
   \<and> map cmd_id (dr_commands (discoverVerificationCommands nodeAndRustProject)) = [''build'', ''lint'']
   \<and> dr_sources (discoverVerificationCommands nodeAndRustProject) = [''package.json'']"
proof -
  have pkg: "dr_commands (checkPackageJson nodeAndRustProject nothingFound) =
      [createCommand ''build'' ''npm run build'' Build False,
       createCommand ''lint'' ''npm run lint'' Lint True]"
    by (simp add: checkPackageJson_def nodeAndRustProject_def nothingFound_def)
  have ty: "cmd_type (createCommand ''lint'' ''npm run lint'' Lint True) = Lint"
    by (simp add: createCommand_def)
  have src: "dr_sources (checkPackageJson nodeAndRustProject nothingFound) = [''package.json'']"
    by (simp add: checkPackageJson_def nodeAndRustProject_def nothingFound_def)
  note inst = discovery_first_ecosystem_own_order[of nodeAndRustProject]
  have eq: "discoverVerificationCommands nodeAndRustProject = checkPackageJson nodeAndRustProject nothingFound"
    using inst[THEN conjunct1] by (simp add: pkg)
  have mem: "createCommand ''lint'' ''npm run lint'' Lint True
     \<in> set (dr_commands (discoverVerificationCommands nodeAndRustProject))"
    by (simp add: eq pkg)
  from inst have "\<forall>c\<in>set (dr_commands (discoverVerificationCommands nodeAndRustProject)).
         cmd_optional c = (cmd_type c = Typecheck \<or> cmd_type c = Lint) \<and> cmd_status c = CmdPending"
    by blast
  with mem ty have opt: "cmd_optional (createCommand ''lint'' ''npm run lint'' Lint True)"
    by blast
  have ids: "map cmd_id (dr_commands (discoverVerificationCommands nodeAndRustProject)) = [''build'', ''lint'']"
    by (simp add: eq pkg createCommand_def)
  have "dr_sources (discoverVerificationCommands nodeAndRustProject) = [''package.json'']"
    by (simp add: eq src)
  with mem opt ids show ?thesis by blast
qed

text \<open>
  The claim as stated, with one type priority for every ecosystem, fails for a
  \<^verbatim>\<open>pyproject.toml\<close> that configures pytest and mypy: the test command comes before the
  typecheck command.
\<close>

theorem discovery_type_priority_counterexample:
  "\<not> sorted (map (typePriority \<circ> cmd_type) (dr_commands (discoverVerificationCommands pythonProject)))"
  by (simp add: discoverVerificationCommands_def checkPackageJson_def checkCargoToml_def
        checkPyproject_def checkGoMod_def checkMakefile_def pythonProject_def createCommand_def
        typePriority_def)

text \<open>
  Claim C7, amended (round trip of the findings document). For a document in the format
  of the prompt, with any number of issues (three in particular), where every issue is
  well formed in the sense of \<open>wellFormedIssue\<close>: the severity is a word; the title, the
  file, the category and the description are not empty, on one line and without white
  space at either end; the file, the category and the description do not hold \<^verbatim>\<open>## \<close>;
  the file holds no label of a later bullet and the category not the label of the
  description; the line is a positive number below \<open>2^53\<close>. Then \<open>parseFindingsMarkdown\<close>
  returns one record for each issue, in order, with the ids \<open>slop-0\<close>, \<open>slop-1\<close> and so
  on, the title, file, line, category and description as written, the severity in lower
  case, and not selected.
\<close>

theorem findings_round_trip:
  "list_all wellFormedIssue ws \<Longrightarrow>
   parseFindingsMarkdown (renderFindings ws)
     = map (\<lambda>(index, w). expectedFinding index w) (enumerate 0 ws)
   \<and> length (parseFindingsMarkdown (renderFindings ws)) = length ws"
  unfolding parseFindingsMarkdown_def renderFindings_def
  by (simp only: blocksFrom_title blocksFrom_renderIssues length_map length_enumerate simp_thms)

text \<open>Three issues of the kind the prompt shows.\<close>

theorem findings_round_trip_witness:
  "list_all wellFormedIssue threeIssues
   \<and> length threeIssues = 3
   \<and> parseFindingsMarkdown (renderFindings threeIssues) =
       [\<lparr>item_id = ''slop-0'', item_title = ''Redundant null check'',
         item_description = ''The value is validated upstream'', item_file = ''src/api/user.ts'',
         item_line = Some (Finite 42), item_severity = ''high'', item_category = ''defensive-checks'',
         item_selected = False\<rparr>,
        \<lparr>item_id = ''slop-1'', item_title = ''Comment restates the code'',
         item_description = ''Remove the comment above stop()'', item_file = ''src/util.ts'',
         item_line = Some (Finite 15), item_severity = ''medium'', item_category = ''extra-comments'',
         item_selected = False\<rparr>,
        \<lparr>item_id = ''slop-2'', item_title = ''Cast to any'',
         item_description = ''Use the declared type'', item_file = ''src/index.ts'',
         item_line = Some (Finite 7), item_severity = ''low'', item_category = ''any-cast'',
         item_selected = False\<rparr>]"
proof -
  have h: "list_all wellFormedIssue threeIssues"
    by code_simp
  have e: "map (\<lambda>(index, w). expectedFinding index w) (enumerate 0 threeIssues) =
       [\<lparr>item_id = ''slop-0'', item_title = ''Redundant null check'',
         item_description = ''The value is validated upstream'', item_file = ''src/api/user.ts'',
         item_line = Some (Finite 42), item_severity = ''high'', item_category = ''defensive-checks'',
         item_selected = False\<rparr>,
        \<lparr>item_id = ''slop-1'', item_title = ''Comment restates the code'',
         item_description = ''Remove the comment above stop()'', item_file = ''src/util.ts'',
         item_line = Some (Finite 15), item_severity = ''medium'', item_category = ''extra-comments'',
         item_selected = False\<rparr>,
        \<lparr>item_id = ''slop-2'', item_title = ''Cast to any'',
         item_description = ''Use the declared type'', item_file = ''src/index.ts'',
         item_line = Some (Finite 7), item_severity = ''low'', item_category = ''any-cast'',
         item_selected = False\<rparr>]"
    by code_simp
  from findings_round_trip[OF h, THEN conjunct1] have r: "parseFindingsMarkdown (renderFindings threeIssues) =
       [\<lparr>item_id = ''slop-0'', item_title = ''Redundant null check'',
         item_description = ''The value is validated upstream'', item_file = ''src/api/user.ts'',
         item_line = Some (Finite 42), item_severity = ''high'', item_category = ''defensive-checks'',
         item_selected = False\<rparr>,
        \<lparr>item_id = ''slop-1'', item_title = ''Comment restates the code'',
         item_description = ''Remove the comment above stop()'', item_file = ''src/util.ts'',
         item_line = Some (Finite 15), item_severity = ''medium'', item_category = ''extra-comments'',
         item_selected = False\<rparr>,
        \<lparr>item_id = ''slop-2'', item_title = ''Cast to any'',
         item_description = ''Use the declared type'', item_file = ''src/index.ts'',
         item_line = Some (Finite 7), item_severity = ''low'', item_category = ''any-cast'',
         item_selected = False\<rparr>]"
    by (simp only: e)
  have n: "length threeIssues = 3"
    by (simp add: threeIssues_def)
  from h n r show ?thesis
    by (intro conjI)
qed

text \<open>
  The claim as stated fails for an issue whose description mentions a markdown heading:
  the lookahead of the block expression takes the \<^verbatim>\<open>## \<close> inside the line for the end of
  the body, and the description read back stops before it.
\<close>

theorem heading_in_description_counterexample:
  "map item_description (parseFindingsMarkdown (renderFindings threeIssuesWithHeading))
     = [''The'', ''Remove the comment above stop()'', ''Use the declared type'']
   \<and> map w_description threeIssuesWithHeading
     = [''The ## Overview section is boilerplate'', ''Remove the comment above stop()'',
        ''Use the declared type'']
   \<and> map item_description (parseFindingsMarkdown (renderFindings threeIssuesWithHeading))
     \<noteq> map w_description threeIssuesWithHeading"
  by code_simp

text \<open>
  Claim C9, amended (the parser tolerates missing fields). Where the block expression
  matches, the findings parser pushes one record and goes on after the body; a body that
  holds the label \<^verbatim>\<open>**Line:**\<close> nowhere (in a bullet or inside another line, in any
  letter case) gives no line, one that holds \<^verbatim>\<open>**File:**\<close> nowhere the file \<open>unknown\<close>,
  one that holds \<^verbatim>\<open>**Description:**\<close> nowhere the empty description, and one that holds
  \<^verbatim>\<open>**Category:**\<close> nowhere the category \<open>style-inconsistency\<close>. The parser is a total
  function (its recursion terminates), with at most as many records as the content has
  characters.
\<close>

theorem missing_fields_default:
  assumes "matchHeading s = Some (severity, title, afterHeading)"
    and "splitBody afterHeading = (body, rest)"
  shows "blocksFrom findingOf index s =
           findingOf index severity title body # blocksFrom findingOf (index + 1) rest
       \<and> (\<not> hasLabel body ''Line'' \<longrightarrow> item_line (findingOf index severity title body) = None)
       \<and> (\<not> hasLabel body ''File'' \<longrightarrow> item_file (findingOf index severity title body) = ''unknown'')
       \<and> (\<not> hasLabel body ''Description'' \<longrightarrow>
             item_description (findingOf index severity title body) = [])
       \<and> (\<not> hasLabel body ''Category'' \<longrightarrow>
             item_category (findingOf index severity title body) = ''style-inconsistency'')
       \<and> length (parseFindingsMarkdown content) \<le> length content"
proof (intro conjI impI)
  from assms(1) have "s \<noteq> []"
    by (auto simp: matchHeading_def)
  then obtain c cs where s: "s = c # cs" by (cases s) auto
  show "blocksFrom findingOf index s =
           findingOf index severity title body # blocksFrom findingOf (index + 1) rest"
    using assms by (simp add: s)
next
  assume "\<not> hasLabel body ''Line''"
  then show "item_line (findingOf index severity title body) = None"
    by (simp add: findingOf_def lineOf_def extractField_absent orElse_def parseInt_zero)
next
  assume "\<not> hasLabel body ''File''"
  then show "item_file (findingOf index severity title body) = ''unknown''"
    by (simp add: findingOf_def extractField_absent orElse_def)
next
  assume "\<not> hasLabel body ''Description''"
  then show "item_description (findingOf index severity title body) = []"
    by (simp add: findingOf_def extractField_absent orElse_def)
next
  assume "\<not> hasLabel body ''Category''"
  then show "item_category (findingOf index severity title body) = ''style-inconsistency''"
    by (simp add: findingOf_def extractField_absent orElse_def)
next
  show "length (parseFindingsMarkdown content) \<le> length content"
    by (simp add: parseFindingsMarkdown_def blocksFrom_length)
qed

text \<open>A block with a heading and no bullet at all, and one with the file and the description only.\<close>

theorem missing_fields_default_witness:
  "matchHeading bareBlock = Some (''HIGH'', ''Unused helper'', ''no bullets here\<newline>'')
   \<and> splitBody ''no bullets here\<newline>'' = (''no bullets here\<newline>'', [])
   \<and> \<not> hasLabel ''no bullets here\<newline>'' ''Line''
   \<and> \<not> hasLabel ''no bullets here\<newline>'' ''File''
   \<and> \<not> hasLabel ''no bullets here\<newline>'' ''Description''
   \<and> \<not> hasLabel ''no bullets here\<newline>'' ''Category''
   \<and> parseFindingsMarkdown bareBlock =
        [\<lparr>item_id = ''slop-0'', item_title = ''Unused helper'', item_description = [],
          item_file = ''unknown'', item_line = None, item_severity = ''high'',
          item_category = ''style-inconsistency'', item_selected = False\<rparr>]
   \<and> matchHeading partialBlock = Some (''LOW'', ''Stale comment'',
        ''- **File:** a.ts\<newline>- **Description:** Says what the code says\<newline>'')
   \<and> splitBody ''- **File:** a.ts\<newline>- **Description:** Says what the code says\<newline>''
        = (''- **File:** a.ts\<newline>- **Description:** Says what the code says\<newline>'', [])
   \<and> \<not> hasLabel ''- **File:** a.ts\<newline>- **Description:** Says what the code says\<newline>'' ''Line''
   \<and> \<not> hasLabel ''- **File:** a.ts\<newline>- **Description:** Says what the code says\<newline>'' ''Category''
   \<and> parseFindingsMarkdown partialBlock =
        [\<lparr>item_id = ''slop-0'', item_title = ''Stale comment'',
          item_description = ''Says what the code says'',
          item_file = ''a.ts'', item_line = None, item_severity = ''low'',
          item_category = ''style-inconsistency'', item_selected = False\<rparr>]"
proof -
  let ?bare = "''no bullets here\<newline>''"
  let ?partial = "''- **File:** a.ts\<newline>- **Description:** Says what the code says\<newline>''"
  have h1: "matchHeading bareBlock = Some (''HIGH'', ''Unused helper'', ?bare)"
    by code_simp
  have h2: "splitBody ?bare = (?bare, [])"
    by code_simp
  have n: "\<not> hasLabel ?bare ''Line''" "\<not> hasLabel ?bare ''File''"
          "\<not> hasLabel ?bare ''Description''" "\<not> hasLabel ?bare ''Category''"
    by code_simp+
  have rest: "findingOf 0 ''HIGH'' ''Unused helper'' ?bare =
        \<lparr>item_id = ''slop-0'', item_title = ''Unused helper'',
          item_description = item_description (findingOf 0 ''HIGH'' ''Unused helper'' ?bare),
          item_file = item_file (findingOf 0 ''HIGH'' ''Unused helper'' ?bare),
          item_line = item_line (findingOf 0 ''HIGH'' ''Unused helper'' ?bare),
          item_severity = ''high'',
          item_category = item_category (findingOf 0 ''HIGH'' ''Unused helper'' ?bare),
          item_selected = False\<rparr>"
    by code_simp
  from missing_fields_default[OF h1 h2, of 0] n
  have b: "parseFindingsMarkdown bareBlock = [findingOf 0 ''HIGH'' ''Unused helper'' ?bare]"
    "item_line (findingOf 0 ''HIGH'' ''Unused helper'' ?bare) = None"
    "item_file (findingOf 0 ''HIGH'' ''Unused helper'' ?bare) = ''unknown''"
    "item_description (findingOf 0 ''HIGH'' ''Unused helper'' ?bare) = []"
    "item_category (findingOf 0 ''HIGH'' ''Unused helper'' ?bare) = ''style-inconsistency''"
    by (simp_all add: parseFindingsMarkdown_def)
  have bare: "parseFindingsMarkdown bareBlock =
        [\<lparr>item_id = ''slop-0'', item_title = ''Unused helper'', item_description = [],
          item_file = ''unknown'', item_line = None, item_severity = ''high'',
          item_category = ''style-inconsistency'', item_selected = False\<rparr>]"
    using rest b by simp
  have g1: "matchHeading partialBlock = Some (''LOW'', ''Stale comment'', ?partial)"
    by code_simp
  have g2: "splitBody ?partial = (?partial, [])"
    by code_simp
  have m: "\<not> hasLabel ?partial ''Line''" "\<not> hasLabel ?partial ''Category''"
    by code_simp+
  have rest2: "findingOf 0 ''LOW'' ''Stale comment'' ?partial =
        \<lparr>item_id = ''slop-0'', item_title = ''Stale comment'',
          item_description = ''Says what the code says'',
          item_file = ''a.ts'',
          item_line = item_line (findingOf 0 ''LOW'' ''Stale comment'' ?partial),
          item_severity = ''low'',
          item_category = item_category (findingOf 0 ''LOW'' ''Stale comment'' ?partial),
          item_selected = False\<rparr>"
    by code_simp
  from missing_fields_default[OF g1 g2, of 0] m
  have p: "parseFindingsMarkdown partialBlock = [findingOf 0 ''LOW'' ''Stale comment'' ?partial]"
    "item_line (findingOf 0 ''LOW'' ''Stale comment'' ?partial) = None"
    "item_category (findingOf 0 ''LOW'' ''Stale comment'' ?partial) = ''style-inconsistency''"
    by (simp_all add: parseFindingsMarkdown_def)
  have partial: "parseFindingsMarkdown partialBlock =
        [\<lparr>item_id = ''slop-0'', item_title = ''Stale comment'',
          item_description = ''Says what the code says'',
          item_file = ''a.ts'', item_line = None, item_severity = ''low'',
          item_category = ''style-inconsistency'', item_selected = False\<rparr>]"
    using rest2 p by simp
  show ?thesis
    using h1 h2 n bare g1 g2 m partial by (intro conjI)
qed

text \<open>
  The claim as stated, for a bullet that is missing, fails for a block with no file and
  no line bullet whose description quotes the two labels: \<open>extractField\<close> searches the
  whole body, and the file and the line are read from the description.
\<close>

theorem quoted_label_counterexample:
  "matchHeading quotingBlock = Some (''HIGH'', ''Stale notice'',
     ''- **Category:** extra-comments\<newline>- **Description:** The notice still says **File:** b.ts, **Line:** 5\<newline>'')
   \<and> \<not> hasBullet ''- **Category:** extra-comments\<newline>- **Description:** The notice still says **File:** b.ts, **Line:** 5\<newline>'' ''File''
   \<and> \<not> hasBullet ''- **Category:** extra-comments\<newline>- **Description:** The notice still says **File:** b.ts, **Line:** 5\<newline>'' ''Line''
   \<and> hasBullet ''- **Category:** extra-comments\<newline>- **Description:** The notice still says **File:** b.ts, **Line:** 5\<newline>'' ''Category''
   \<and> hasBullet ''- **Category:** extra-comments\<newline>- **Description:** The notice still says **File:** b.ts, **Line:** 5\<newline>'' ''Description''
   \<and> parseFindingsMarkdown quotingBlock =
        [\<lparr>item_id = ''slop-0'', item_title = ''Stale notice'',
          item_description = ''The notice still says **File:** b.ts, **Line:** 5'',
          item_file = ''b.ts, **Line:** 5'', item_line = Some (Finite 5), item_severity = ''high'',
          item_category = ''extra-comments'', item_selected = False\<rparr>]"
  by code_simp

text \<open>
  Claim C10 (the review sentinel overrides the blocks). A review document that holds
  \<open>No suggestions\<close>, \<open>NO_SUGGESTIONS\<close> or \<open>looks good\<close> anywhere parses to the empty list
  of suggestions.
\<close>

theorem review_sentinel_overrides:
  "content = u @ ''No suggestions'' @ v \<or> content = u @ ''NO_SUGGESTIONS'' @ v
     \<or> content = u @ ''looks good'' @ v \<Longrightarrow>
   parseReviewMarkdown content = []"
proof -
  assume "content = u @ ''No suggestions'' @ v \<or> content = u @ ''NO_SUGGESTIONS'' @ v
     \<or> content = u @ ''looks good'' @ v"
  then have "stringIncludes content ''No suggestions'' \<or> stringIncludes content ''NO_SUGGESTIONS''
     \<or> stringIncludes content ''looks good''"
    unfolding stringIncludes_iff by blast
  then show ?thesis
    unfolding parseReviewMarkdown_def by simp
qed

text \<open>A review whose one well-formed suggestion is lost to the sentinel in its description.\<close>

theorem review_sentinel_overrides_witness:
  "reviewWithSentinel =
     ''## Suggestions\<newline>\<newline>### 1. [LOW] Rename the helper\<newline>- **File:** a.ts\<newline>- **Description:** The rest ''
     @ ''looks good'' @ ''\<newline>''
   \<and> map sug_title (blocksFrom suggestionOf 0 reviewWithSentinel) = [''Rename the helper'']
   \<and> parseReviewMarkdown reviewWithSentinel = []"
proof -
  have a: "reviewWithSentinel =
     ''## Suggestions\<newline>\<newline>### 1. [LOW] Rename the helper\<newline>- **File:** a.ts\<newline>- **Description:** The rest ''
     @ ''looks good'' @ ''\<newline>''"
    by (simp add: reviewWithSentinel_def)
  have b: "map sug_title (blocksFrom suggestionOf 0 reviewWithSentinel) = [''Rename the helper'']"
    by code_simp
  from a have "parseReviewMarkdown reviewWithSentinel = []"
    by (intro review_sentinel_overrides disjI2)
  with a b show ?thesis by blast
qed

end
